theory Spec2Isabelle
  imports Complex_Main
begin

section \<open>Python exceptions, indexing and array arithmetic\<close>

text \<open>
  The master problem of \<^verbatim>\<open>planners/master_problem.py\<close> is embedded with Python's
  floats read as real numbers. Every exception the code can raise is a value of
  \<open>error\<close>; a computation that may raise has type \<open>error + 'a\<close>.
\<close>

datatype error =
    IndexError | TypeError | ValueError | NotImplementedError
  | UnboundLocalError | AttributeError | SolverError

definition ebind :: "error + 'a \<Rightarrow> ('a \<Rightarrow> error + 'b) \<Rightarrow> error + 'b" where
  "ebind m f = (case m of Inl e \<Rightarrow> Inl e | Inr v \<Rightarrow> f v)"

text \<open>A comprehension or loop that collects one result per element, left to right.\<close>

fun mapM :: "('a \<Rightarrow> error + 'b) \<Rightarrow> 'a list \<Rightarrow> error + 'b list" where
  "mapM f [] = Inr []"
| "mapM f (x # xs) = ebind (f x) (\<lambda>y. ebind (mapM f xs) (\<lambda>ys. Inr (y # ys)))"

text \<open>A loop that updates an accumulator, left to right.\<close>

fun foldM :: "('b \<Rightarrow> 'a \<Rightarrow> error + 'b) \<Rightarrow> 'b \<Rightarrow> 'a list \<Rightarrow> error + 'b" where
  "foldM f acc [] = Inr acc"
| "foldM f acc (x # xs) = ebind (f acc x) (\<lambda>acc'. foldM f acc' xs)"

text \<open>\<^verbatim>\<open>xs[i]\<close> for \<open>i \<ge> 0\<close>: IndexError out of range.\<close>

definition py_index :: "'a list \<Rightarrow> nat \<Rightarrow> error + 'a" where
  "py_index xs i = (if i < length xs then Inr (xs ! i) else Inl IndexError)"

text \<open>\<^verbatim>\<open>prob * x\<close> where \<open>prob\<close> is a variable's \<^verbatim>\<open>.value\<close>: TypeError when it is None.\<close>

definition value_mul :: "real option \<Rightarrow> real \<Rightarrow> error + real" where
  "value_mul prob x = (case prob of None \<Rightarrow> Inl TypeError | Some p \<Rightarrow> Inr (p * x))"

text \<open>
  The product \<^verbatim>\<open>xs * ys\<close> of two one-dimensional numpy arrays: elementwise, an array of
  length one is broadcast, any other mismatch of lengths is a ValueError.
\<close>

definition broadcastable :: "real list \<Rightarrow> real list \<Rightarrow> bool" where
  "broadcastable xs ys \<longleftrightarrow> length xs = length ys \<or> length xs = 1 \<or> length ys = 1"

definition broadcast_mul :: "real list \<Rightarrow> real list \<Rightarrow> real list" where
  "broadcast_mul xs ys =
     (if length xs = length ys then map2 (*) xs ys
      else if length xs = 1 then map (\<lambda>y. hd xs * y) ys
      else map (\<lambda>x. x * hd ys) xs)"

definition np_mul :: "real list \<Rightarrow> real list \<Rightarrow> error + real list" where
  "np_mul xs ys = (if broadcastable xs ys then Inr (broadcast_mul xs ys) else Inl ValueError)"

section \<open>Data model\<close>

text \<open>A column is the dictionary with the keys \<^verbatim>\<open>"claims"\<close> and \<^verbatim>\<open>"reward"\<close>.\<close>

record column =
  claims :: "real list"
  reward :: "real list"

text \<open>
  The agent interface the master problem consumes: the attributes \<^verbatim>\<open>horizon\<close> and
  \<^verbatim>\<open>fixed_cost_vector\<close> and the result of \<^verbatim>\<open>get_columns()\<close>.
\<close>

record agent =
  agent_horizon :: nat
  fixed_cost_vector :: "real list"
  get_columns :: "column list"

text \<open>
  A \<^verbatim>\<open>cv.Variable(nonneg=True)\<close>. The variable created for column \<open>c\<close> of agent \<open>a\<close> is
  identified by \<open>(a, c)\<close>; its \<^verbatim>\<open>.value\<close> is None until a solve sets it.
\<close>

datatype variable = Variable (var_id: "nat \<times> nat") (var_value: "real option")

text \<open>
  Expressions of the modelling language as the code builds them. \<open>Num\<close> is a plain
  Python number, \<open>VarPen\<close> is the application of the library's \<^verbatim>\<open>variance_penalty\<close> to a
  list of expressions.
\<close>

datatype expr =
    Num real
  | Var "nat \<times> nat"
  | Add expr expr
  | Sub expr expr
  | Mul expr expr
  | VarPen "expr list"

datatype relation = EQ | LE

text \<open>
  The result of a comparison: a constraint object with its \<^verbatim>\<open>dual_value\<close>, or a plain
  Python bool when the left-hand side is a plain number.
\<close>

datatype constraint =
    PyBool bool
  | Constraint expr relation real "real option"

datatype objective_value = Finite real | PlusInfinity | MinusInfinity | Unset

text \<open>A \<^verbatim>\<open>cv.Problem\<close> with \<^verbatim>\<open>cv.Maximize(objective)\<close>, its status and its value.\<close>

record problem =
  objective :: expr
  constraints :: "constraint list"
  status :: "string option"
  prob_value :: objective_value

text \<open>
  What the external solver reports for a problem: status, objective value, the value
  of each variable and the dual of each constraint (by its position in the constraint
  list), None where it reports none.
\<close>

record solver_result =
  res_status :: string
  res_value :: objective_value
  res_primal :: "nat \<times> nat \<Rightarrow> real option"
  res_dual :: "nat \<Rightarrow> real option"

record master_problem =
  agents :: "agent list"
  horizon :: nat
  num_agents :: nat
  resource_capacity :: real
  langrangian_weight :: real
  fairness_type :: string
  fairness_scope :: string
  decision_vars :: "variable list list"
  lp :: "problem option"
  resource_constraints :: "constraint list"

section \<open>Construction\<close>

definition MasterProblem_init ::
  "agent list \<Rightarrow> real \<Rightarrow> real \<Rightarrow> string \<Rightarrow> string \<Rightarrow> error + master_problem" where
  "MasterProblem_init ags capacity weight ftype fscope =
     ebind (py_index ags 0) (\<lambda>first.
       Inr \<lparr>agents = ags, horizon = agent_horizon first, num_agents = length ags,
            resource_capacity = capacity, langrangian_weight = weight,
            fairness_type = ftype, fairness_scope = fscope,
            decision_vars = [], lp = None, resource_constraints = []\<rparr>)"

section \<open>Formulation\<close>

definition create_decision_vars :: "agent list \<Rightarrow> variable list list" where
  "create_decision_vars ags =
     map (\<lambda>(a, agent). map (\<lambda>(c, _). Variable (a, c) None) (enumerate 0 (get_columns agent)))
         (enumerate 0 ags)"

text \<open>\<^verbatim>\<open>cv.sum\<close> of a list is Python's \<^verbatim>\<open>sum\<close>: it starts from the number 0.\<close>

definition cv_sum :: "variable list \<Rightarrow> expr" where
  "cv_sum vs = foldl (\<lambda>acc v. Add acc (Var (var_id v))) (Num 0) vs"

definition cv_eq :: "expr \<Rightarrow> real \<Rightarrow> constraint" where
  "cv_eq e r = (case e of Num x \<Rightarrow> PyBool (x = r) | _ \<Rightarrow> Constraint e EQ r None)"

definition cv_le :: "expr \<Rightarrow> real \<Rightarrow> constraint" where
  "cv_le e r = (case e of Num x \<Rightarrow> PyBool (x \<le> r) | _ \<Rightarrow> Constraint e LE r None)"

definition agent_constraints :: "master_problem \<Rightarrow> error + constraint list" where
  "agent_constraints mp =
     mapM (\<lambda>a. ebind (py_index (decision_vars mp) a) (\<lambda>vs. Inr (cv_eq (cv_sum vs) 1)))
          [0..<num_agents mp]"

definition expected_total_claims :: "master_problem \<Rightarrow> nat \<Rightarrow> error + expr" where
  "expected_total_claims mp t =
     foldM (\<lambda>total (a, agent).
             foldM (\<lambda>total (c, column).
                     ebind (py_index (decision_vars mp) a) (\<lambda>vs.
                     ebind (py_index vs c) (\<lambda>var.
                     ebind (py_index (claims column) t) (\<lambda>x.
                       Inr (Add total (Mul (Var (var_id var)) (Num x)))))))
                   total (enumerate 0 (get_columns agent)))
           (Num 0) (enumerate 0 (agents mp))"

text \<open>
  The loop over the periods appends to \<^verbatim>\<open>self.resource_constraints\<close> as it goes, so an
  exception leaves the constraints built so far in the instance.
\<close>

fun build_resource_constraints ::
  "master_problem \<Rightarrow> nat list \<Rightarrow> master_problem \<times> error option" where
  "build_resource_constraints mp [] = (mp, None)"
| "build_resource_constraints mp (t # ts) =
     (case expected_total_claims mp t of
        Inl e \<Rightarrow> (mp, Some e)
      | Inr expected \<Rightarrow>
          build_resource_constraints
            (mp\<lparr>resource_constraints :=
                  resource_constraints mp @ [cv_le expected (resource_capacity mp)]\<rparr>) ts)"

section \<open>Objective\<close>

text \<open>
  The expected claim of agent \<open>a\<close> as an expression; \<open>weight\<close> is what the loop reads
  from a column: \<^verbatim>\<open>column["claims"][t]\<close> or \<^verbatim>\<open>sum(column["claims"])\<close>.
\<close>

definition expected_claims_expr ::
  "master_problem \<Rightarrow> nat \<Rightarrow> (column \<Rightarrow> error + real) \<Rightarrow> error + expr" where
  "expected_claims_expr mp a weight =
     ebind (py_index (agents mp) a) (\<lambda>agent.
       foldM (\<lambda>expr (c, column).
               ebind (py_index (decision_vars mp) a) (\<lambda>vs.
               ebind (py_index vs c) (\<lambda>var.
               ebind (weight column) (\<lambda>w.
                 Inr (Add expr (Mul (Var (var_id var)) (Num w)))))))
             (Num 0) (enumerate 0 (get_columns agent)))"

text \<open>
  Lines 51 to 82: the objective starts at 0 and, when the weight is positive, the
  weighted penalty is subtracted. \<^verbatim>\<open>fairness_penalty\<close> is assigned only under
  \<^verbatim>\<open>fairness_type == "variance"\<close>, so any other type reads an unbound local.
\<close>

definition fairness_objective :: "master_problem \<Rightarrow> error + expr" where
  "fairness_objective mp =
     (if langrangian_weight mp > 0 then
        if fairness_scope mp = ''timestep'' then
          foldM (\<lambda>total t.
                  ebind (mapM (\<lambda>a. expected_claims_expr mp a (\<lambda>column. py_index (claims column) t))
                              [0..<num_agents mp]) (\<lambda>expected_claims_t.
                    if fairness_type mp = ''variance''
                    then Inr (Sub total (Mul (Num (langrangian_weight mp)) (VarPen expected_claims_t)))
                    else Inl UnboundLocalError))
                (Num 0) [0..<horizon mp]
        else if fairness_scope mp = ''cumulative'' then
          ebind (mapM (\<lambda>a. expected_claims_expr mp a (\<lambda>column. Inr (sum_list (claims column))))
                      [0..<num_agents mp]) (\<lambda>expected_cumulative_claims.
            if fairness_type mp = ''variance''
            then Inr (Sub (Num 0)
                          (Mul (Num (langrangian_weight mp)) (VarPen expected_cumulative_claims)))
            else Inl UnboundLocalError)
        else Inl ValueError
      else Inr (Num 0))"

text \<open>Lines 84 to 89: the net value of every column, weighted by its variable.\<close>

definition add_expected_reward :: "master_problem \<Rightarrow> expr \<Rightarrow> error + expr" where
  "add_expected_reward mp total_expected_reward =
     foldM (\<lambda>total (a, agent).
             foldM (\<lambda>total (c, column).
                     ebind (np_mul (fixed_cost_vector agent) (claims column)) (\<lambda>costs.
                     ebind (py_index (decision_vars mp) a) (\<lambda>vs.
                     ebind (py_index vs c) (\<lambda>var.
                       Inr (Add total
                              (Mul (Var (var_id var))
                                   (Num (sum_list (reward column) - sum_list costs))))))))
                   total (enumerate 0 (get_columns agent)))
           total_expected_reward (enumerate 0 (agents mp))"

definition build_objective :: "master_problem \<Rightarrow> error + expr" where
  "build_objective mp = ebind (fairness_objective mp) (add_expected_reward mp)"

section \<open>Post-solve extraction\<close>

text \<open>The expected claim of agent \<open>a\<close> from the solved values.\<close>

definition expected_claims_value ::
  "master_problem \<Rightarrow> nat \<Rightarrow> (column \<Rightarrow> error + real) \<Rightarrow> error + real" where
  "expected_claims_value mp a weight =
     ebind (py_index (agents mp) a) (\<lambda>agent.
       foldM (\<lambda>val (c, column).
               ebind (py_index (decision_vars mp) a) (\<lambda>vs.
               ebind (py_index vs c) (\<lambda>var.
               ebind (weight column) (\<lambda>w.
               ebind (value_mul (var_value var) w) (\<lambda>x.
                 Inr (val + x))))))
             0 (enumerate 0 (get_columns agent)))"

text \<open>
  \<open>vpg\<close> is the library's \<^verbatim>\<open>variance_penalty_gradient\<close>, \<open>vpn\<close> its
  \<^verbatim>\<open>variance_penalty_numpy\<close>; the module that defines them is outside the source, so
  both are parameters.
\<close>

definition compute_fairness_gradients ::
  "(real list \<Rightarrow> real list) \<Rightarrow> master_problem \<Rightarrow> error + real list list" where
  "compute_fairness_gradients vpg mp =
     (if fairness_scope mp = ''timestep'' then
        ebind (mapM (\<lambda>t.
                 ebind (mapM (\<lambda>a. expected_claims_value mp a (\<lambda>column. py_index (claims column) t))
                             [0..<num_agents mp]) (\<lambda>expected_claims_t.
                   if fairness_type mp = ''variance'' then Inr (vpg expected_claims_t)
                   else Inl NotImplementedError))
               [0..<horizon mp]) (\<lambda>gradients.
          mapM (\<lambda>a. mapM (\<lambda>t. ebind (py_index gradients t) (\<lambda>grad_t. py_index grad_t a))
                          [0..<horizon mp])
               [0..<num_agents mp])
      else if fairness_scope mp = ''cumulative'' then
        ebind (mapM (\<lambda>a. expected_claims_value mp a (\<lambda>column. Inr (sum_list (claims column))))
                    [0..<num_agents mp]) (\<lambda>expected_cumulative_claims.
          if fairness_type mp = ''variance'' then
            mapM (\<lambda>a. ebind (py_index (vpg expected_cumulative_claims) a) (\<lambda>g.
                         Inr (replicate (horizon mp) g)))
                 [0..<num_agents mp]
          else Inl NotImplementedError)
      else Inl ValueError)"

definition get_dual_prices :: "master_problem \<Rightarrow> error + real list" where
  "get_dual_prices mp =
     mapM (\<lambda>c. case c of
                 PyBool b \<Rightarrow> Inl AttributeError
               | Constraint lhs rel rhs dual \<Rightarrow>
                   Inr (case dual of Some d \<Rightarrow> d | None \<Rightarrow> 0))
          (resource_constraints mp)"

text \<open>
  \<^verbatim>\<open>get_decision_distribution()\<close> computes in double precision. The operations on the
  elements of a float array are parameters, so that the function can be read both in
  exact arithmetic and with rounding: \<open>to_float\<close> is the array element a value becomes,
  \<open>np_sum\<close> is \<^verbatim>\<open>np.sum\<close> of an array, \<open>eq_zero\<close> the test \<^verbatim>\<open>== 0\<close> and \<open>float_div\<close> the
  division of two elements.
\<close>

record 'f float_ops =
  to_float :: "real \<Rightarrow> 'f"
  np_sum :: "'f list \<Rightarrow> 'f"
  eq_zero :: "'f \<Rightarrow> bool"
  float_div :: "'f \<Rightarrow> 'f \<Rightarrow> 'f"

definition exact_ops :: "real float_ops" where
  "exact_ops =
     \<lparr>to_float = (\<lambda>x. x), np_sum = sum_list, eq_zero = (\<lambda>x. x = 0), float_div = (/)\<rparr>"

definition get_decision_distribution :: "'f float_ops \<Rightarrow> master_problem \<Rightarrow> 'f list list" where
  "get_decision_distribution ops mp =
     map (\<lambda>a_vars.
            let weights = map (\<lambda>var. to_float ops
                                      (case var_value var of Some x \<Rightarrow> x | None \<Rightarrow> 0)) a_vars
            in if eq_zero ops (np_sum ops weights)
               then map (\<lambda>_. float_div ops (to_float ops 1)
                                            (to_float ops (real (length weights)))) weights
               else map (\<lambda>w. float_div ops w (np_sum ops weights)) weights)
         (decision_vars mp)"

definition compute_realized_fairness_penalty ::
  "(real list \<Rightarrow> real) \<Rightarrow> master_problem \<Rightarrow> error + real" where
  "compute_realized_fairness_penalty vpn mp =
     (if fairness_scope mp = ''timestep'' then
        foldM (\<lambda>penalty t.
                ebind (mapM (\<lambda>a. expected_claims_value mp a (\<lambda>column. py_index (claims column) t))
                            [0..<num_agents mp]) (\<lambda>claims_t.
                  Inr (penalty + vpn claims_t)))
              0 [0..<horizon mp]
      else if fairness_scope mp = ''cumulative'' then
        ebind (mapM (\<lambda>a. expected_claims_value mp a (\<lambda>column. Inr (sum_list (claims column))))
                    [0..<num_agents mp]) (\<lambda>cumulative_claims.
          Inr (vpn cumulative_claims))
      else Inl ValueError)"

section \<open>Solve\<close>

text \<open>
  The effect of \<^verbatim>\<open>self.lp.solve()\<close> on the objects the instance holds: every variable
  gets the value and every constraint the dual the solver reports, the problem its
  status and value. The resource constraints are the same objects as the entries of the
  problem's constraint list after the \<open>offset\<close> per-agent constraints, one for each of
  \<^verbatim>\<open>range(self.num_agents)\<close>.
\<close>

definition set_dual :: "solver_result \<Rightarrow> nat \<Rightarrow> constraint \<Rightarrow> constraint" where
  "set_dual res i c =
     (case c of PyBool b \<Rightarrow> PyBool b
      | Constraint lhs rel rhs dual \<Rightarrow> Constraint lhs rel rhs (res_dual res i))"

definition install_solution :: "solver_result \<Rightarrow> nat \<Rightarrow> master_problem \<Rightarrow> master_problem" where
  "install_solution res offset mp =
     mp\<lparr>decision_vars :=
          map (map (\<lambda>v. Variable (var_id v) (res_primal res (var_id v)))) (decision_vars mp),
        resource_constraints :=
          map (\<lambda>(t, c). set_dual res (offset + t) c) (enumerate 0 (resource_constraints mp)),
        lp := map_option
                (\<lambda>p. p\<lparr>constraints := map (\<lambda>(i, c). set_dual res i c) (enumerate 0 (constraints p)),
                        status := Some (res_status res),
                        prob_value := res_value res\<rparr>)
                (lp mp)\<rparr>"

text \<open>
  Lines 23 to 92 of \<^verbatim>\<open>solve()\<close>: the variables, the constraints and the objective
  are rebuilt and the problem object is stored. The result is the instance as these
  lines leave it and either the exception raised or the problem handed to the solver.
\<close>

definition formulate :: "master_problem \<Rightarrow> master_problem \<times> (error + problem)" where
  "formulate mp =
     (let mp1 = mp\<lparr>decision_vars := create_decision_vars (agents mp)\<rparr> in
      case agent_constraints mp1 of
        Inl e \<Rightarrow> (mp1, Inl e)
      | Inr agent_cons \<Rightarrow>
     (case build_resource_constraints (mp1\<lparr>resource_constraints := []\<rparr>) [0..<horizon mp1] of
        (mp2, Some e) \<Rightarrow> (mp2, Inl e)
      | (mp2, None) \<Rightarrow>
     (case build_objective mp2 of
        Inl e \<Rightarrow> (mp2, Inl e)
      | Inr total_expected_reward \<Rightarrow>
     (let prob = \<lparr>objective = total_expected_reward,
                  constraints = agent_cons @ resource_constraints mp2,
                  status = None, prob_value = Unset\<rparr>
      in (mp2\<lparr>lp := Some prob\<rparr>, Inr prob)))))"

text \<open>
  \<^verbatim>\<open>solve()\<close>. The external solver is the parameter \<open>solver\<close>; an exception it raises
  is not caught. The result is the instance as the call leaves it and either the
  exception raised or the returned triple. \<open>ops\<close> are the float operations of
  \<^verbatim>\<open>get_decision_distribution()\<close>; \<open>solve\<close> is the call read in exact arithmetic.
\<close>

definition solve_with ::
  "'f float_ops \<Rightarrow> (problem \<Rightarrow> error + solver_result) \<Rightarrow> (real list \<Rightarrow> real list) \<Rightarrow>
   (real list \<Rightarrow> real) \<Rightarrow> master_problem \<Rightarrow>
   master_problem \<times> (error + objective_value \<times> 'f list list \<times> real)" where
  "solve_with ops solver vpg vpn mp =
     (case formulate mp of
        (mp3, Inl e) \<Rightarrow> (mp3, Inl e)
      | (mp3, Inr prob) \<Rightarrow>
     (case solver prob of
        Inl e \<Rightarrow> (mp3, Inl e)
      | Inr res \<Rightarrow>
     (let mp4 = install_solution res (num_agents mp3) mp3 in
      case compute_fairness_gradients vpg mp4 of
        Inl e \<Rightarrow> (mp4, Inl e)
      | Inr fairness_gradients_per_agent \<Rightarrow>
     (case compute_realized_fairness_penalty vpn mp4 of
        Inl e \<Rightarrow> (mp4, Inl e)
      | Inr fairness_penalty_realized \<Rightarrow>
          (mp4, Inr (res_value res, get_decision_distribution ops mp4,
                     langrangian_weight mp4 * fairness_penalty_realized))))))"

abbreviation solve ::
  "(problem \<Rightarrow> error + solver_result) \<Rightarrow> (real list \<Rightarrow> real list) \<Rightarrow> (real list \<Rightarrow> real) \<Rightarrow>
   master_problem \<Rightarrow> master_problem \<times> (error + objective_value \<times> real list list \<times> real)" where
  "solve \<equiv> solve_with exact_ops"

section \<open>Meaning of expressions and constraints\<close>

text \<open>
  The value of an expression under an assignment \<open>\<sigma>\<close> of the variables; \<open>vp\<close> is the
  function the library's \<^verbatim>\<open>variance_penalty\<close> denotes.
\<close>

fun eval :: "(nat \<times> nat \<Rightarrow> real) \<Rightarrow> (real list \<Rightarrow> real) \<Rightarrow> expr \<Rightarrow> real" where
  "eval \<sigma> vp (Num x) = x"
| "eval \<sigma> vp (Var i) = \<sigma> i"
| "eval \<sigma> vp (Add e1 e2) = eval \<sigma> vp e1 + eval \<sigma> vp e2"
| "eval \<sigma> vp (Sub e1 e2) = eval \<sigma> vp e1 - eval \<sigma> vp e2"
| "eval \<sigma> vp (Mul e1 e2) = eval \<sigma> vp e1 * eval \<sigma> vp e2"
| "eval \<sigma> vp (VarPen es) = vp (map (eval \<sigma> vp) es)"

fun satisfies :: "(nat \<times> nat \<Rightarrow> real) \<Rightarrow> (real list \<Rightarrow> real) \<Rightarrow> constraint \<Rightarrow> bool" where
  "satisfies \<sigma> vp (PyBool b) = b"
| "satisfies \<sigma> vp (Constraint lhs EQ rhs dual) = (eval \<sigma> vp lhs = rhs)"
| "satisfies \<sigma> vp (Constraint lhs LE rhs dual) = (eval \<sigma> vp lhs \<le> rhs)"

section \<open>Sample inputs\<close>

text \<open>
  An instance of the fairness library, used where a statement is evaluated on concrete
  inputs: the population variance and its gradient.
\<close>

definition population_variance :: "real list \<Rightarrow> real" where
  "population_variance xs =
     (let n = real (length xs); m = sum_list xs / n
      in sum_list (map (\<lambda>x. (x - m)\<^sup>2) xs) / n)"

definition population_variance_gradient :: "real list \<Rightarrow> real list" where
  "population_variance_gradient xs =
     (let n = real (length xs); m = sum_list xs / n
      in map (\<lambda>x. 2 * (x - m) / n) xs)"

text \<open>
  The agents of the scenarios of the specification: horizon 1, zero fixed cost, one
  column with reward \<open>[1]\<close> and the given claim.
\<close>

definition scenario_agent :: "real \<Rightarrow> agent" where
  "scenario_agent c =
     \<lparr>agent_horizon = 1, fixed_cost_vector = [0],
      get_columns = [\<lparr>claims = [c], reward = [1]\<rparr>]\<rparr>"

text \<open>Solver reports: an infeasible problem leaves every value and dual unset.\<close>

definition infeasible_result :: solver_result where
  "infeasible_result =
     \<lparr>res_status = ''infeasible'', res_value = MinusInfinity,
      res_primal = (\<lambda>_. None), res_dual = (\<lambda>_. None)\<rparr>"

definition optimal_result :: "real \<Rightarrow> (nat \<times> nat \<Rightarrow> real) \<Rightarrow> (nat \<Rightarrow> real option) \<Rightarrow> solver_result" where
  "optimal_result v x y =
     \<lparr>res_status = ''optimal'', res_value = Finite v,
      res_primal = (\<lambda>i. Some (x i)), res_dual = y\<rparr>"

text \<open>
  The instance the constructor builds from two scenario agents with the claims
  \<open>c0\<close> and \<open>c1\<close>.
\<close>

definition scenario_instance ::
  "real \<Rightarrow> real \<Rightarrow> real \<Rightarrow> real \<Rightarrow> string \<Rightarrow> string \<Rightarrow> master_problem" where
  "scenario_instance c0 c1 capacity weight ftype fscope =
     \<lparr>agents = [scenario_agent c0, scenario_agent c1], horizon = 1, num_agents = 2,
      resource_capacity = capacity, langrangian_weight = weight,
      fairness_type = ftype, fairness_scope = fscope,
      decision_vars = [], lp = None, resource_constraints = []\<rparr>"

section \<open>The formulation in the words of the specification\<close>

text \<open>
  The quantities of sections 4.1 and 4.2 of the specification, as functions of an
  assignment \<open>\<sigma>\<close> of the decision variables. \<open>w\<close> is what is read from a column: its
  claim at a period, or the sum of its claims.
\<close>

definition expected_claim ::
  "(nat \<times> nat \<Rightarrow> real) \<Rightarrow> master_problem \<Rightarrow> nat \<Rightarrow> (column \<Rightarrow> real) \<Rightarrow> real" where
  "expected_claim \<sigma> mp a w =
     (\<Sum>(c, column) \<leftarrow> enumerate 0 (get_columns (agents mp ! a)). \<sigma> (a, c) * w column)"

definition net_value :: "agent \<Rightarrow> column \<Rightarrow> real" where
  "net_value ag col =
     sum_list (reward col) - sum_list (broadcast_mul (fixed_cost_vector ag) (claims col))"

definition total_expected_reward :: "(nat \<times> nat \<Rightarrow> real) \<Rightarrow> master_problem \<Rightarrow> real" where
  "total_expected_reward \<sigma> mp =
     (\<Sum>(a, ag) \<leftarrow> enumerate 0 (agents mp).
        \<Sum>(c, col) \<leftarrow> enumerate 0 (get_columns ag). \<sigma> (a, c) * net_value ag col)"

definition fairness_penalty ::
  "(real list \<Rightarrow> real) \<Rightarrow> (nat \<times> nat \<Rightarrow> real) \<Rightarrow> master_problem \<Rightarrow> real" where
  "fairness_penalty vp \<sigma> mp =
     (if fairness_scope mp = ''timestep'' then
        (\<Sum>t \<leftarrow> [0..<horizon mp].
           vp (map (\<lambda>a. expected_claim \<sigma> mp a (\<lambda>col. claims col ! t)) [0..<num_agents mp]))
      else
        vp (map (\<lambda>a. expected_claim \<sigma> mp a (\<lambda>col. sum_list (claims col))) [0..<num_agents mp]))"

definition spec_objective ::
  "(real list \<Rightarrow> real) \<Rightarrow> (nat \<times> nat \<Rightarrow> real) \<Rightarrow> master_problem \<Rightarrow> real" where
  "spec_objective vp \<sigma> mp =
     total_expected_reward \<sigma> mp
       - (if langrangian_weight mp > 0
          then langrangian_weight mp * fairness_penalty vp \<sigma> mp else 0)"

text \<open>Whether an expression contains an application of \<^verbatim>\<open>variance_penalty\<close>.\<close>

fun has_penalty :: "expr \<Rightarrow> bool" where
  "has_penalty (Num x) = False"
| "has_penalty (Var i) = False"
| "has_penalty (Add e1 e2) = (has_penalty e1 \<or> has_penalty e2)"
| "has_penalty (Sub e1 e2) = (has_penalty e1 \<or> has_penalty e2)"
| "has_penalty (Mul e1 e2) = (has_penalty e1 \<or> has_penalty e2)"
| "has_penalty (VarPen es) = True"

text \<open>The value of the variable of column \<open>c\<close> of agent \<open>a\<close> in an instance, 0 when unset.\<close>

definition solved_value :: "master_problem \<Rightarrow> nat \<times> nat \<Rightarrow> real" where
  "solved_value mp = (\<lambda>(a, c). case var_value (decision_vars mp ! a ! c) of
                                  Some x \<Rightarrow> x | None \<Rightarrow> 0)"

text \<open>
  The shape the data model of the specification asks of an instance, as far as the
  code depends on it: \<^verbatim>\<open>num_agents\<close> is the number of agents, every claims array has an
  entry for each period, and the fixed cost vector can be multiplied with it.
\<close>

definition well_shaped :: "master_problem \<Rightarrow> bool" where
  "well_shaped mp \<longleftrightarrow>
     num_agents mp = length (agents mp) \<and>
     (\<forall>ag \<in> set (agents mp). \<forall>col \<in> set (get_columns ag).
        horizon mp \<le> length (claims col) \<and> broadcastable (fixed_cost_vector ag) (claims col))"

text \<open>
  A solver report that solves a problem exactly: it gives every variable a value,
  these values satisfy every constraint, and the reported objective value is the value
  of the objective at them. \<open>vp\<close> is the meaning of \<^verbatim>\<open>variance_penalty\<close>.
\<close>

definition exact_solution :: "(real list \<Rightarrow> real) \<Rightarrow> problem \<Rightarrow> solver_result \<Rightarrow> bool" where
  "exact_solution vp prob res \<longleftrightarrow>
     (\<exists>\<sigma>. (\<forall>i. res_primal res i = Some (\<sigma> i))
        \<and> (\<forall>c \<in> set (constraints prob). satisfies \<sigma> vp c)
        \<and> res_value res = Finite (eval \<sigma> vp (objective prob)))"

text \<open>The constraints and the two objectives of a scenario instance, as \<open>formulate\<close> builds them.\<close>

definition scenario_constraints :: "real \<Rightarrow> real \<Rightarrow> real \<Rightarrow> constraint list" where
  "scenario_constraints c0 c1 cap =
     [Constraint (Add (Num 0) (Var (0, 0))) EQ 1 None,
      Constraint (Add (Num 0) (Var (1, 0))) EQ 1 None,
      Constraint (Add (Add (Num 0) (Mul (Var (0, 0)) (Num c0))) (Mul (Var (1, 0)) (Num c1)))
        LE cap None]"

definition scenario_reward :: "expr \<Rightarrow> expr" where
  "scenario_reward e = Add (Add e (Mul (Var (0, 0)) (Num 1))) (Mul (Var (1, 0)) (Num 1))"

definition scenario_penalty :: "real \<Rightarrow> real \<Rightarrow> real \<Rightarrow> expr" where
  "scenario_penalty c0 c1 w =
     Sub (Num 0) (Mul (Num w)
       (VarPen [Add (Num 0) (Mul (Var (0, 0)) (Num c0)), Add (Num 0) (Mul (Var (1, 0)) (Num c1))]))"

definition scenario_problem :: "expr \<Rightarrow> real \<Rightarrow> real \<Rightarrow> real \<Rightarrow> problem" where
  "scenario_problem obj c0 c1 cap =
     \<lparr>objective = obj, constraints = scenario_constraints c0 c1 cap,
      status = None, prob_value = Unset\<rparr>"

definition scenario_formulated ::
  "expr \<Rightarrow> real \<Rightarrow> real \<Rightarrow> real \<Rightarrow> real \<Rightarrow> string \<Rightarrow> string \<Rightarrow> master_problem" where
  "scenario_formulated obj c0 c1 cap w ft fs =
     (scenario_instance c0 c1 cap w ft fs)
       \<lparr>decision_vars := [[Variable (0, 0) None], [Variable (1, 0) None]],
        lp := Some (scenario_problem obj c0 c1 cap),
        resource_constraints := [scenario_constraints c0 c1 cap ! 2]\<rparr>"

text \<open>Two agents that differ at most in their \<^verbatim>\<open>horizon\<close> attribute.\<close>

definition same_except_horizon :: "agent \<Rightarrow> agent \<Rightarrow> bool" where
  "same_except_horizon g g' \<longleftrightarrow>
     fixed_cost_vector g = fixed_cost_vector g' \<and> get_columns g = get_columns g'"

section \<open>Double precision\<close>











section \<open>Further sample inputs and auxiliary notions\<close>

text \<open>
  An agent with three columns, and the instance the constructor builds from it alone
  with capacity 1, weight 0, variance penalty per period.
\<close>

definition three_column_agent :: agent where
  "three_column_agent =
     \<lparr>agent_horizon = 1, fixed_cost_vector = [0],
      get_columns = [\<lparr>claims = [1], reward = [1]\<rparr>, \<lparr>claims = [0], reward = [1]\<rparr>,
                     \<lparr>claims = [0], reward = [1]\<rparr>]\<rparr>"

definition three_column_instance :: master_problem where
  "three_column_instance =
     \<lparr>agents = [three_column_agent], horizon = 1, num_agents = 1,
      resource_capacity = 1, langrangian_weight = 0,
      fairness_type = ''variance'', fairness_scope = ''timestep'',
      decision_vars = [], lp = None, resource_constraints = []\<rparr>"

text \<open>
  A solver report with status optimal that gives the three variables of the first agent
  the values \<open>x0\<close>, \<open>x1\<close> and \<open>x2\<close>.
\<close>

definition three_values :: "real \<Rightarrow> real \<Rightarrow> real \<Rightarrow> real \<Rightarrow> solver_result" where
  "three_values v x0 x1 x2 =
     \<lparr>res_status = ''optimal'', res_value = Finite v,
      res_primal = (\<lambda>i. Some (if i = (0, 0) then x0 else if i = (0, 1) then x1 else x2)),
      res_dual = (\<lambda>_. None)\<rparr>"

text \<open>
  Lines 23 to 48 of \<^verbatim>\<open>solve()\<close> complete without an exception: the variables, the
  per-agent constraints and the resource constraint of every period have been rebuilt.
\<close>

definition constraints_rebuilt :: "master_problem \<Rightarrow> bool" where
  "constraints_rebuilt mp =
     (let mp1 = mp\<lparr>decision_vars := create_decision_vars (agents mp)\<rparr> in
      case agent_constraints mp1 of
        Inl e \<Rightarrow> False
      | Inr agent_cons \<Rightarrow>
          snd (build_resource_constraints (mp1\<lparr>resource_constraints := []\<rparr>) [0..<horizon mp1])
            = None)"

text \<open>
  The dual value the resource constraint of period \<open>t\<close> holds after \<^verbatim>\<open>solve()\<close>: what the
  solver reports for constraint \<open>num_agents + t\<close> of the problem it was handed, and None
  when \<^verbatim>\<open>solve()\<close> raised before the solver returned.
\<close>

definition solver_dual ::
  "(problem \<Rightarrow> error + solver_result) \<Rightarrow> master_problem \<Rightarrow> nat \<Rightarrow> real option" where
  "solver_dual solver mp t =
     (case snd (formulate mp) of
        Inl e \<Rightarrow> None
      | Inr prob \<Rightarrow>
          (case solver prob of
             Inl e \<Rightarrow> None
           | Inr res \<Rightarrow> res_dual res (num_agents mp + t)))"

section \<open>Basic facts\<close>

lemma ebind_simps:
  "ebind (Inl e) f = Inl e"
  "ebind (Inr v) f = f v"
  by (simp_all add: ebind_def)

lemma mapM_all_Inr: "(\<And>x. x \<in> set xs \<Longrightarrow> f x = Inr (g x)) \<Longrightarrow> mapM f xs = Inr (map g xs)"
  by (induction xs) (simp_all add: ebind_simps)

lemma mapM_Inr_iff: "mapM f xs = Inr ys \<longleftrightarrow> list_all2 (\<lambda>x y. f x = Inr y) xs ys"
proof (induction xs arbitrary: ys)
  case Nil
  then show ?case by auto
next
  case (Cons x xs)
  show ?case
  proof (cases "f x")
    case (Inl e)
    then show ?thesis by (auto simp: ebind_simps list_all2_Cons1)
  next
    case (Inr y)
    then show ?thesis
      using Cons.IH by (cases "mapM f xs") (auto simp: ebind_simps list_all2_Cons1)
  qed
qed

lemma mapM_length: "mapM f xs = Inr ys \<Longrightarrow> length ys = length xs"
  by (simp add: mapM_Inr_iff list_all2_lengthD)

lemma mapM_cong: "(\<And>x. x \<in> set xs \<Longrightarrow> f x = g x) \<Longrightarrow> mapM f xs = mapM g xs"
  by (induction xs) simp_all

lemma foldM_cong: "(\<And>acc x. x \<in> set xs \<Longrightarrow> f acc x = g acc x) \<Longrightarrow> foldM f acc xs = foldM g acc xs"
  by (induction xs arbitrary: acc) simp_all

lemma expected_total_claims_rc [simp]:
  "expected_total_claims (mp\<lparr>resource_constraints := rc\<rparr>) = expected_total_claims mp"
  by (rule ext) (simp add: expected_total_claims_def)

lemma build_rc_fields:
  "build_resource_constraints mp ts = (mp', r) \<Longrightarrow>
   mp' = mp\<lparr>resource_constraints := resource_constraints mp'\<rparr>"
proof (induction ts arbitrary: mp)
  case Nil
  then show ?case by simp
next
  case (Cons t ts)
  show ?case
  proof (cases "expected_total_claims mp t")
    case (Inl e)
    with Cons.prems show ?thesis by simp
  next
    case (Inr x)
    with Cons.prems have "build_resource_constraints
        (mp\<lparr>resource_constraints := resource_constraints mp @ [cv_le x (resource_capacity mp)]\<rparr>) ts
        = (mp', r)" by simp
    from Cons.IH [OF this] show ?thesis by simp
  qed
qed

lemma build_rc_None:
  "build_resource_constraints mp ts = (mp', None) \<Longrightarrow>
   \<exists>es. mapM (expected_total_claims mp) ts = Inr es \<and>
        resource_constraints mp' =
          resource_constraints mp @ map (\<lambda>e. cv_le e (resource_capacity mp)) es"
proof (induction ts arbitrary: mp)
  case Nil
  then show ?case by simp
next
  case (Cons t ts)
  show ?case
  proof (cases "expected_total_claims mp t")
    case (Inl e)
    with Cons.prems show ?thesis by simp
  next
    case (Inr x)
    with Cons.prems have "build_resource_constraints
        (mp\<lparr>resource_constraints := resource_constraints mp @ [cv_le x (resource_capacity mp)]\<rparr>) ts
        = (mp', None)" by simp
    from Cons.IH [OF this] obtain es where
      "mapM (expected_total_claims mp) ts = Inr es"
      "resource_constraints mp' =
         resource_constraints mp @ [cv_le x (resource_capacity mp)]
           @ map (\<lambda>e. cv_le e (resource_capacity mp)) es"
      by auto
    with Inr show ?thesis by (simp add: ebind_simps)
  qed
qed

lemma formulate_fields:
  "formulate mp = (mp', r) \<Longrightarrow>
   mp' = mp\<lparr>decision_vars := create_decision_vars (agents mp),
            resource_constraints := resource_constraints mp', lp := lp mp'\<rparr>"
  unfolding formulate_def Let_def
  by (auto split: sum.splits prod.splits option.splits dest!: build_rc_fields)


lemma mapM_nth:
  "mapM f xs = Inr ys \<Longrightarrow> i < length xs \<Longrightarrow> f (xs ! i) = Inr (ys ! i)"
  by (simp add: mapM_Inr_iff list_all2_conv_all_nth)

lemma map_enumerate_fst:
  "map (\<lambda>(c, _). f c) (enumerate n xs) = map f [n..<n + length xs]"
proof (induction xs arbitrary: n)
  case Nil
  then show ?case by simp
next
  case (Cons x xs)
  have "[n..<n + length (x # xs)] = n # [Suc n..<Suc n + length xs]"
    by (simp add: upt_conv_Cons del: upt_Suc)
  then show ?case
    using Cons.IH [of "Suc n"] by (simp only: enumerate_simps list.map prod.case)
qed

lemma length_create_decision_vars [simp]: "length (create_decision_vars ags) = length ags"
  by (simp add: create_decision_vars_def)

lemma create_decision_vars_nth:
  "a < length ags \<Longrightarrow>
   create_decision_vars ags ! a =
     map (\<lambda>c. Variable (a, c) None) [0..<length (get_columns (ags ! a))]"
  using map_enumerate_fst [of "\<lambda>c. Variable (a, c) None" 0 "get_columns (ags ! a)"]
  by (simp add: create_decision_vars_def nth_enumerate_eq)

lemma decision_vars_install [simp]:
  "decision_vars (install_solution res k mp) =
     map (map (\<lambda>v. Variable (var_id v) (res_primal res (var_id v)))) (decision_vars mp)"
  by (simp add: install_solution_def)

lemma solve_state:
  "fst (solve solver vpg vpn mp) = fst (formulate mp) \<or>
   (\<exists>prob res. snd (formulate mp) = Inr prob \<and> solver prob = Inr res \<and>
      fst (solve solver vpg vpn mp) =
        install_solution res (num_agents (fst (formulate mp))) (fst (formulate mp)))"
  unfolding solve_with_def Let_def
  by (auto split: prod.splits sum.splits)







lemma solve_with_error:
  "snd (solve_with ops solver vpg vpn mp) = Inl e \<longleftrightarrow> snd (solve solver vpg vpn mp) = Inl e"
  by (simp add: solve_with_def Let_def split: prod.splits sum.splits)










lemma scenario_init:
  "MasterProblem_init [scenario_agent c0, scenario_agent c1] capacity weight ftype fscope =
   Inr (scenario_instance c0 c1 capacity weight ftype fscope)"
  by (simp add: MasterProblem_init_def py_index_def ebind_simps scenario_instance_def
      scenario_agent_def)





lemma expected_claims_expr_rc [simp]:
  "expected_claims_expr (mp\<lparr>resource_constraints := rc\<rparr>) = expected_claims_expr mp"
  by (intro ext) (simp add: expected_claims_expr_def)

lemma fairness_objective_rc [simp]:
  "fairness_objective (mp\<lparr>resource_constraints := rc\<rparr>) = fairness_objective mp"
  by (simp add: fairness_objective_def cong: if_cong)

lemma add_expected_reward_rc [simp]:
  "add_expected_reward (mp\<lparr>resource_constraints := rc\<rparr>) = add_expected_reward mp"
  by (intro ext) (simp add: add_expected_reward_def)

lemma build_objective_rc [simp]:
  "build_objective (mp\<lparr>resource_constraints := rc\<rparr>) = build_objective mp"
  by (simp add: build_objective_def)

lemma formulate_Inr:
  assumes "formulate mp = (mp3, Inr prob)"
  shows "\<exists>acs es.
           agent_constraints (mp\<lparr>decision_vars := create_decision_vars (agents mp)\<rparr>) = Inr acs
         \<and> mapM (expected_total_claims (mp\<lparr>decision_vars := create_decision_vars (agents mp)\<rparr>))
                [0..<horizon mp] = Inr es
         \<and> build_objective (mp\<lparr>decision_vars := create_decision_vars (agents mp)\<rparr>)
             = Inr (objective prob)
         \<and> prob = \<lparr>objective = objective prob,
                    constraints = acs @ map (\<lambda>e. cv_le e (resource_capacity mp)) es,
                    status = None, prob_value = Unset\<rparr>
         \<and> mp3 = mp\<lparr>decision_vars := create_decision_vars (agents mp),
                     resource_constraints := map (\<lambda>e. cv_le e (resource_capacity mp)) es,
                     lp := Some prob\<rparr>"
proof -
  define mp1 where "mp1 = mp\<lparr>decision_vars := create_decision_vars (agents mp)\<rparr>"
  from assms obtain acs where acs: "agent_constraints mp1 = Inr acs"
    unfolding formulate_def Let_def mp1_def [symmetric]
    by (cases "agent_constraints mp1") auto
  obtain mp2 r where b: "build_resource_constraints (mp1\<lparr>resource_constraints := []\<rparr>)
      [0..<horizon mp] = (mp2, r)" by (cases "build_resource_constraints (mp1\<lparr>resource_constraints := []\<rparr>)
      [0..<horizon mp]") auto
  have h1: "horizon mp1 = horizon mp" by (simp add: mp1_def)
  from assms acs b h1 have r: "r = None"
    unfolding formulate_def Let_def mp1_def [symmetric]
    by (cases r) auto
  from build_rc_None [OF b [unfolded r]] obtain es where
    es: "mapM (expected_total_claims mp1) [0..<horizon mp] = Inr es"
    and rc: "resource_constraints mp2 = map (\<lambda>e. cv_le e (resource_capacity mp)) es"
    by (auto simp: mp1_def)
  from build_rc_fields [OF b] rc
  have mp2: "mp2 = mp1\<lparr>resource_constraints := map (\<lambda>e. cv_le e (resource_capacity mp)) es\<rparr>"
    by simp
  from assms acs b h1 r obtain obj where obj: "build_objective mp2 = Inr obj"
    unfolding formulate_def Let_def mp1_def [symmetric]
    by (cases "build_objective mp2") auto
  from assms acs b h1 r obj
  have res: "prob = \<lparr>objective = obj, constraints = acs @ resource_constraints mp2,
                    status = None, prob_value = Unset\<rparr>"
    "mp3 = mp2\<lparr>lp := Some prob\<rparr>"
    unfolding formulate_def Let_def mp1_def [symmetric]
    by auto
  have o: "build_objective mp1 = Inr (objective prob)"
    using obj res(1) by (simp add: mp2)
  show ?thesis
    unfolding mp1_def [symmetric]
    using acs es o res rc mp2 by auto
qed







lemma foldM_success:
  "(\<And>acc x. x \<in> set xs \<Longrightarrow> \<exists>y. f acc x = Inr y) \<Longrightarrow> \<exists>r. foldM f acc xs = Inr r"
proof (induction xs arbitrary: acc)
  case Nil
  then show ?case by simp
next
  case (Cons x xs)
  from Cons.prems [of x acc] obtain y where y: "f acc x = Inr y" by auto
  from Cons.IH [of y] Cons.prems obtain r where "foldM f y xs = Inr r" by auto
  with y show ?case by (simp add: ebind_simps)
qed

lemma mapM_success:
  "(\<And>x. x \<in> set xs \<Longrightarrow> \<exists>y. f x = Inr y) \<Longrightarrow> \<exists>ys. mapM f xs = Inr ys"
proof (induction xs)
  case Nil
  then show ?case by simp
next
  case (Cons x xs)
  from Cons.prems [of x] obtain y where y: "f x = Inr y" by auto
  from Cons.IH Cons.prems obtain ys where "mapM f xs = Inr ys" by auto
  with y show ?case by (simp add: ebind_simps)
qed

lemma build_rc_success:
  "(\<And>t. t \<in> set ts \<Longrightarrow> \<exists>e. expected_total_claims mp t = Inr e) \<Longrightarrow>
   \<exists>mp'. build_resource_constraints mp ts = (mp', None)"
proof (induction ts arbitrary: mp)
  case Nil
  then show ?case by simp
next
  case (Cons t ts)
  from Cons.prems [of t] obtain e where e: "expected_total_claims mp t = Inr e" by auto
  have "\<exists>mp'. build_resource_constraints
          (mp\<lparr>resource_constraints := resource_constraints mp @ [cv_le e (resource_capacity mp)]\<rparr>)
          ts = (mp', None)"
    by (rule Cons.IH) (use Cons.prems in simp)
  with e show ?case by simp
qed

text \<open>Reading the variable of a column right after the variables were created.\<close>

lemma fresh_var_index:
  assumes "decision_vars mp = create_decision_vars (agents mp)"
    and "(a, ag) \<in> set (enumerate 0 (agents mp))"
    and "(c, col) \<in> set (enumerate 0 (get_columns ag))"
  shows "ebind (py_index (decision_vars mp) a) (\<lambda>vs. ebind (py_index vs c) k)
         = k (Variable (a, c) None)"
proof -
  from assms(2) have a: "a < length (agents mp)" "agents mp ! a = ag"
    by (simp_all add: in_set_enumerate_eq)
  from assms(3) have c: "c < length (get_columns ag)" by (simp add: in_set_enumerate_eq)
  show ?thesis
    using a c by (simp add: assms(1) py_index_def ebind_simps create_decision_vars_nth)
qed

lemma agent_constraints_success:
  assumes "decision_vars mp = create_decision_vars (agents mp)"
    and "num_agents mp \<le> length (agents mp)"
  shows "\<exists>acs. agent_constraints mp = Inr acs"
  unfolding agent_constraints_def
  by (rule mapM_success) (use assms in \<open>simp add: py_index_def ebind_simps\<close>)

lemma expected_total_claims_success:
  assumes "decision_vars mp = create_decision_vars (agents mp)"
    and "\<forall>ag \<in> set (agents mp). \<forall>col \<in> set (get_columns ag). t < length (claims col)"
  shows "\<exists>e. expected_total_claims mp t = Inr e"
  unfolding expected_total_claims_def
proof (rule foldM_success, clarify)
  fix acc a ag
  assume m: "(a, ag) \<in> set (enumerate 0 (agents mp))"
  then have ag: "ag \<in> set (agents mp)" by (auto simp: in_set_enumerate_eq)
  show "\<exists>y. foldM (\<lambda>total (c, column).
                     ebind (py_index (decision_vars mp) a) (\<lambda>vs.
                     ebind (py_index vs c) (\<lambda>var.
                     ebind (py_index (claims column) t) (\<lambda>x.
                       Inr (Add total (Mul (Var (var_id var)) (Num x)))))))
                   acc (enumerate 0 (get_columns ag)) = Inr y"
  proof (rule foldM_success, clarify)
    fix acc' c col
    assume mc: "(c, col) \<in> set (enumerate 0 (get_columns ag))"
    then have "col \<in> set (get_columns ag)" by (auto simp: in_set_enumerate_eq)
    with ag assms(2) have "t < length (claims col)" by blast
    then show "\<exists>y. ebind (py_index (decision_vars mp) a) (\<lambda>vs.
                     ebind (py_index vs c) (\<lambda>var.
                     ebind (py_index (claims col) t) (\<lambda>x.
                       Inr (Add acc' (Mul (Var (var_id var)) (Num x)))))) = Inr y"
      by (subst fresh_var_index [OF assms(1) m mc]) (simp add: py_index_def ebind_simps)
  qed
qed

lemma expected_claims_expr_success:
  assumes "decision_vars mp = create_decision_vars (agents mp)"
    and "a < length (agents mp)"
    and "\<forall>col \<in> set (get_columns (agents mp ! a)). \<exists>w. weight col = Inr w"
  shows "\<exists>e. expected_claims_expr mp a weight = Inr e"
proof -
  have m: "(a, agents mp ! a) \<in> set (enumerate 0 (agents mp))"
    using assms(2) by (simp add: in_set_enumerate_eq)
  have "\<exists>e. foldM (\<lambda>expr (c, column).
               ebind (py_index (decision_vars mp) a) (\<lambda>vs.
               ebind (py_index vs c) (\<lambda>var.
               ebind (weight column) (\<lambda>w.
                 Inr (Add expr (Mul (Var (var_id var)) (Num w)))))))
             (Num 0) (enumerate 0 (get_columns (agents mp ! a))) = Inr e"
  proof (rule foldM_success, clarify)
    fix acc c col
    assume mc: "(c, col) \<in> set (enumerate 0 (get_columns (agents mp ! a)))"
    then have "col \<in> set (get_columns (agents mp ! a))" by (auto simp: in_set_enumerate_eq)
    with assms(3) obtain w where "weight col = Inr w" by blast
    then show "\<exists>y. ebind (py_index (decision_vars mp) a) (\<lambda>vs.
               ebind (py_index vs c) (\<lambda>var.
               ebind (weight col) (\<lambda>w.
                 Inr (Add acc (Mul (Var (var_id var)) (Num w)))))) = Inr y"
      by (subst fresh_var_index [OF assms(1) m mc]) (simp add: ebind_simps)
  qed
  then show ?thesis
    using assms(2) by (simp add: expected_claims_expr_def py_index_def ebind_simps)
qed

lemma add_expected_reward_success:
  assumes "decision_vars mp = create_decision_vars (agents mp)"
    and "\<forall>ag \<in> set (agents mp). \<forall>col \<in> set (get_columns ag).
           broadcastable (fixed_cost_vector ag) (claims col)"
  shows "\<exists>e. add_expected_reward mp e0 = Inr e"
  unfolding add_expected_reward_def
proof (rule foldM_success, clarify)
  fix acc a ag
  assume m: "(a, ag) \<in> set (enumerate 0 (agents mp))"
  then have ag: "ag \<in> set (agents mp)" by (auto simp: in_set_enumerate_eq)
  show "\<exists>y. foldM (\<lambda>total (c, column).
                     ebind (np_mul (fixed_cost_vector ag) (claims column)) (\<lambda>costs.
                     ebind (py_index (decision_vars mp) a) (\<lambda>vs.
                     ebind (py_index vs c) (\<lambda>var.
                       Inr (Add total
                              (Mul (Var (var_id var))
                                   (Num (sum_list (reward column) - sum_list costs))))))))
                   acc (enumerate 0 (get_columns ag)) = Inr y"
  proof (rule foldM_success, clarify)
    fix acc' c col
    assume mc: "(c, col) \<in> set (enumerate 0 (get_columns ag))"
    then have "col \<in> set (get_columns ag)" by (auto simp: in_set_enumerate_eq)
    with ag assms(2) have b: "broadcastable (fixed_cost_vector ag) (claims col)" by blast
    show "\<exists>y. ebind (np_mul (fixed_cost_vector ag) (claims col)) (\<lambda>costs.
                     ebind (py_index (decision_vars mp) a) (\<lambda>vs.
                     ebind (py_index vs c) (\<lambda>var.
                       Inr (Add acc'
                              (Mul (Var (var_id var))
                                   (Num (sum_list (reward col) - sum_list costs))))))) = Inr y"
      using b
      by (simp add: np_mul_def ebind_simps fresh_var_index [OF assms(1) m mc])
  qed
qed

lemma fairness_objective_no_weight:
  "\<not> 0 < langrangian_weight mp \<Longrightarrow> fairness_objective mp = Inr (Num 0)"
  by (simp add: fairness_objective_def)


lemma fairness_objective_success:
  assumes "decision_vars mp = create_decision_vars (agents mp)"
    and "well_shaped mp"
    and "fairness_scope mp = ''timestep'' \<or> fairness_scope mp = ''cumulative''"
    and "fairness_type mp = ''variance''"
  shows "\<exists>e. fairness_objective mp = Inr e"
proof (cases "0 < langrangian_weight mp")
  case False
  then show ?thesis by (simp add: fairness_objective_no_weight)
next
  case True
  have n: "num_agents mp = length (agents mp)" using assms(2) by (simp add: well_shaped_def)
  have cum: "\<exists>es. mapM (\<lambda>a. expected_claims_expr mp a (\<lambda>column. Inr (sum_list (claims column))))
                      [0..<num_agents mp] = Inr es"
    by (rule mapM_success, rule expected_claims_expr_success [OF assms(1)]) (simp_all add: n)
  have ts: "\<exists>es. mapM (\<lambda>a. expected_claims_expr mp a (\<lambda>column. py_index (claims column) t))
                      [0..<num_agents mp] = Inr es" if "t < horizon mp" for t
  proof (rule mapM_success, rule expected_claims_expr_success [OF assms(1)])
    fix a assume "a \<in> set [0..<num_agents mp]"
    then show a: "a < length (agents mp)" by (simp add: n)
    then have "agents mp ! a \<in> set (agents mp)" by simp
    with assms(2) that
    show "\<forall>col \<in> set (get_columns (agents mp ! a)). \<exists>w. py_index (claims col) t = Inr w"
      by (fastforce simp: well_shaped_def py_index_def)
  qed
  show ?thesis
  proof (cases "fairness_scope mp = ''timestep''")
    case ts_scope: True
    have "\<exists>e. foldM (\<lambda>total t.
                  ebind (mapM (\<lambda>a. expected_claims_expr mp a (\<lambda>column. py_index (claims column) t))
                              [0..<num_agents mp]) (\<lambda>expected_claims_t.
                    if fairness_type mp = ''variance''
                    then Inr (Sub total (Mul (Num (langrangian_weight mp)) (VarPen expected_claims_t)))
                    else Inl UnboundLocalError))
                (Num 0) [0..<horizon mp] = Inr e"
    proof (rule foldM_success)
      fix acc t assume "t \<in> set [0..<horizon mp]"
      then have "t < horizon mp" by simp
      from ts [OF this] obtain es where "mapM (\<lambda>a. expected_claims_expr mp a (\<lambda>column. py_index (claims column) t))
                      [0..<num_agents mp] = Inr es" by blast
      then show "\<exists>y. ebind (mapM (\<lambda>a. expected_claims_expr mp a (\<lambda>column. py_index (claims column) t))
                              [0..<num_agents mp]) (\<lambda>expected_claims_t.
                    if fairness_type mp = ''variance''
                    then Inr (Sub acc (Mul (Num (langrangian_weight mp)) (VarPen expected_claims_t)))
                    else Inl UnboundLocalError) = Inr y"
        by (simp add: ebind_simps assms(4))
    qed
    with True ts_scope show ?thesis by (simp add: fairness_objective_def)
  next
    case False
    with assms(3) have c: "fairness_scope mp = ''cumulative''" by simp
    from cum obtain es where "mapM (\<lambda>a. expected_claims_expr mp a (\<lambda>column. Inr (sum_list (claims column))))
                      [0..<num_agents mp] = Inr es" by blast
    with True c show ?thesis by (simp add: fairness_objective_def ebind_simps assms(4))
  qed
qed

lemma formulate_well_shaped:
  assumes "well_shaped mp"
  shows "case build_objective (mp\<lparr>decision_vars := create_decision_vars (agents mp)\<rparr>) of
           Inl e \<Rightarrow> snd (formulate mp) = Inl e
         | Inr obj \<Rightarrow> \<exists>prob. snd (formulate mp) = Inr prob \<and> objective prob = obj"
proof -
  define mp1 where "mp1 = mp\<lparr>decision_vars := create_decision_vars (agents mp)\<rparr>"
  have fresh: "decision_vars mp1 = create_decision_vars (agents mp1)" by (simp add: mp1_def)
  have n: "num_agents mp1 \<le> length (agents mp1)"
    using assms by (simp add: mp1_def well_shaped_def)
  from agent_constraints_success [OF fresh n] obtain acs where
    acs: "agent_constraints mp1 = Inr acs" by blast
  have "\<exists>mp'. build_resource_constraints (mp1\<lparr>resource_constraints := []\<rparr>) [0..<horizon mp]
          = (mp', None)"
  proof (rule build_rc_success)
    fix t assume "t \<in> set [0..<horizon mp]"
    then have "t < horizon mp" by simp
    with assms have "\<forall>ag \<in> set (agents mp1). \<forall>col \<in> set (get_columns ag). t < length (claims col)"
      by (fastforce simp: well_shaped_def mp1_def)
    from expected_total_claims_success [OF fresh this]
    show "\<exists>e. expected_total_claims (mp1\<lparr>resource_constraints := []\<rparr>) t = Inr e" by simp
  qed
  then obtain mp2 where b: "build_resource_constraints (mp1\<lparr>resource_constraints := []\<rparr>)
      [0..<horizon mp] = (mp2, None)" by blast
  from build_rc_fields [OF b]
  have o: "build_objective mp2 = build_objective mp1"
    by (metis build_objective_rc master_problem.update_convs(10))
  have h: "horizon mp1 = horizon mp" by (simp add: mp1_def)
  show ?thesis
    unfolding mp1_def [symmetric]
    using acs b o h
    by (cases "build_objective mp1")
       (simp_all add: formulate_def Let_def mp1_def [symmetric])
qed

lemma fairness_scope_formulate [simp]: "fairness_scope (fst (formulate mp)) = fairness_scope mp"
  using formulate_fields [of mp "fst (formulate mp)" "snd (formulate mp)"]
  by (metis master_problem.select_convs(7) master_problem.surjective
      master_problem.update_convs(8,9,10) prod.collapse)



lemmas scenario_defs =
  scenario_instance_def scenario_agent_def scenario_formulated_def scenario_problem_def
  scenario_constraints_def scenario_reward_def scenario_penalty_def

lemmas formulate_defs =
  formulate_def create_decision_vars_def
  agent_constraints_def expected_total_claims_def build_objective_def fairness_objective_def
  expected_claims_expr_def add_expected_reward_def np_mul_def broadcastable_def broadcast_mul_def
  py_index_def ebind_simps cv_sum_def cv_eq_def cv_le_def Let_def

lemma scenario_formulate_unweighted:
  "formulate (scenario_instance c0 c1 cap 0 ft fs) =
     (scenario_formulated (scenario_reward (Num 0)) c0 c1 cap 0 ft fs,
      Inr (scenario_problem (scenario_reward (Num 0)) c0 c1 cap))"
  by (simp add: scenario_defs formulate_defs upt_rec [of 0] numeral_2_eq_2)

lemma scenario_formulate_timestep:
  "0 < w \<Longrightarrow>
   formulate (scenario_instance c0 c1 cap w ''variance'' ''timestep'') =
     (scenario_formulated (scenario_reward (scenario_penalty c0 c1 w)) c0 c1 cap w
        ''variance'' ''timestep'',
      Inr (scenario_problem (scenario_reward (scenario_penalty c0 c1 w)) c0 c1 cap))"
  by (simp add: scenario_defs formulate_defs upt_rec [of 0] numeral_2_eq_2)

lemmas extraction_defs =
  compute_fairness_gradients_def compute_realized_fairness_penalty_def
  get_decision_distribution_def exact_ops_def expected_claims_value_def install_solution_def
  value_mul_def py_index_def ebind_simps Let_def

lemma scenario_after_solver:
  assumes "res_primal res (0, 0) = Some 1" and "res_primal res (1, 0) = Some 1"
    and "length (vpg [c0, c1]) = 2"
  shows "compute_fairness_gradients vpg
           (install_solution res 2 (scenario_formulated obj c0 c1 cap w ''variance'' ''timestep''))
         = Inr [[vpg [c0, c1] ! 0], [vpg [c0, c1] ! 1]]
       \<and> compute_realized_fairness_penalty vpn
           (install_solution res 2 (scenario_formulated obj c0 c1 cap w ''variance'' ''timestep''))
         = Inr (vpn [c0, c1])
       \<and> get_decision_distribution exact_ops
           (install_solution res 2 (scenario_formulated obj c0 c1 cap w ''variance'' ''timestep''))
         = [[1], [1]]"
  using assms
  by (auto simp add: scenario_defs extraction_defs upt_rec [of 0] numeral_2_eq_2)

lemma scenario_solve:
  assumes f: "formulate (scenario_instance c0 c1 cap w ''variance'' ''timestep'') =
           (scenario_formulated obj c0 c1 cap w ''variance'' ''timestep'',
            Inr (scenario_problem obj c0 c1 cap))"
    and e: "\<exists>res. solver (scenario_problem obj c0 c1 cap) = Inr res \<and>
                exact_solution vp (scenario_problem obj c0 c1 cap) res"
    and g: "length (vpg [c0, c1]) = 2"
  shows "\<exists>\<sigma>. \<sigma> (0, 0) = 1 \<and> \<sigma> (1, 0) = 1 \<and>
         snd (solve solver vpg vpn (scenario_instance c0 c1 cap w ''variance'' ''timestep'')) =
         Inr (Finite (eval \<sigma> vp obj), [[1], [1]], w * vpn [c0, c1])"
proof -
  from e obtain res \<sigma> where res: "solver (scenario_problem obj c0 c1 cap) = Inr res"
    and pr: "\<forall>i. res_primal res i = Some (\<sigma> i)"
    and sat: "\<forall>c \<in> set (constraints (scenario_problem obj c0 c1 cap)). satisfies \<sigma> vp c"
    and v: "res_value res = Finite (eval \<sigma> vp (objective (scenario_problem obj c0 c1 cap)))"
    unfolding exact_solution_def by blast
  from sat have x: "\<sigma> (0, 0) = 1" "\<sigma> (1, 0) = 1"
    by (simp_all add: scenario_defs)
  from pr x have p: "res_primal res (0, 0) = Some 1" "res_primal res (1, 0) = Some 1"
    by simp_all
  have n: "num_agents (scenario_formulated obj c0 c1 cap w ''variance'' ''timestep'') = 2"
    and l: "langrangian_weight (install_solution res 2
              (scenario_formulated obj c0 c1 cap w ''variance'' ''timestep'')) = w"
    by (simp_all add: scenario_defs install_solution_def)
  have v': "res_value res = Finite (eval \<sigma> vp obj)"
    using v by (simp add: scenario_problem_def)
  have "snd (solve solver vpg vpn (scenario_instance c0 c1 cap w ''variance'' ''timestep'')) =
         Inr (Finite (eval \<sigma> vp obj), [[1], [1]], w * vpn [c0, c1])"
    unfolding solve_with_def f
    using scenario_after_solver [of res vpg c0 c1 obj cap w vpn] p g
    by (simp add: res n l v' Let_def)
  with x show ?thesis by blast
qed



text \<open>
  Claim C8, as amended. In Scenario A (two agents, horizon 1, weight 0, each with one
  column of claim \<open>[1]\<close> and reward \<open>[1]\<close>, zero fixed cost) the two weights are forced to
  1, so the expected claim is 2: with capacity 1 no assignment satisfies the constraints.
  With a capacity of at least 2 and a solver that solves the problem exactly,
  \<^verbatim>\<open>solve()\<close> returns the objective value 2, the distributions \<open>[1]\<close> and \<open>[1]\<close> and the
  fairness impact 0.
\<close>

theorem scenario_A_result:
  assumes "MasterProblem_init [scenario_agent 1, scenario_agent 1] cap 0 ''variance'' ''timestep''
           = Inr mp"
    and "2 \<le> cap"
    and "\<And>prob. snd (formulate mp) = Inr prob \<Longrightarrow>
           \<exists>res. solver prob = Inr res \<and> exact_solution vp prob res"
    and "length (vpg [1, 1]) = 2"
  shows "snd (solve solver vpg vpn mp) = Inr (Finite 2, [[1], [1]], 0)"
proof -
  let ?obj = "scenario_reward (Num 0)"
  have mp: "mp = scenario_instance 1 1 cap 0 ''variance'' ''timestep''"
    using assms(1) by (simp add: scenario_init)
  have f: "formulate (scenario_instance 1 1 cap 0 ''variance'' ''timestep'') =
           (scenario_formulated ?obj 1 1 cap 0 ''variance'' ''timestep'',
            Inr (scenario_problem ?obj 1 1 cap))"
    by (rule scenario_formulate_unweighted)
  have e: "\<exists>res. solver (scenario_problem ?obj 1 1 cap) = Inr res \<and>
                exact_solution vp (scenario_problem ?obj 1 1 cap) res"
    by (rule assms(3)) (simp add: mp f)
  from scenario_solve [where solver = solver and vp = vp and vpg = vpg and vpn = vpn,
      OF f e assms(4)] obtain \<sigma> where
    x: "\<sigma> (0, 0) = 1" "\<sigma> (1, 0) = 1"
    and s: "snd (solve solver vpg vpn (scenario_instance 1 1 cap 0 ''variance'' ''timestep'')) =
         Inr (Finite (eval \<sigma> vp ?obj), [[1], [1]], 0 * vpn [1, 1])"
    by blast
  have "eval \<sigma> vp ?obj = 2"
    using x by (simp add: scenario_reward_def)
  with s show ?thesis by (simp add: mp)
qed

theorem scenario_A_result_witness:
  "(2::real) \<le> 2 \<and>
   snd (solve (\<lambda>_. Inr (optimal_result 2 (\<lambda>_. 1) (\<lambda>_. None)))
          population_variance_gradient population_variance
          (scenario_instance 1 1 2 0 ''variance'' ''timestep'')) =
   Inr (Finite 2, [[1], [1]], 0)"
proof -
  let ?res = "optimal_result 2 (\<lambda>_. 1) (\<lambda>_. None)"
  let ?obj = "scenario_reward (Num 0)"
  have f: "formulate (scenario_instance 1 1 2 0 ''variance'' ''timestep'') =
           (scenario_formulated ?obj 1 1 2 0 ''variance'' ''timestep'',
            Inr (scenario_problem ?obj 1 1 2))"
    by (rule scenario_formulate_unweighted)
  have e: "\<exists>res. (\<lambda>_. Inr ?res) prob = Inr res \<and> exact_solution population_variance prob res"
    if "snd (formulate (scenario_instance 1 1 2 0 ''variance'' ''timestep'')) = Inr prob" for prob
  proof -
    from that f have p: "prob = scenario_problem ?obj 1 1 2" by simp
    have "exact_solution population_variance prob ?res"
      unfolding exact_solution_def
      by (rule exI [of _ "\<lambda>_. 1"])
         (simp add: p optimal_result_def scenario_defs)
    then show ?thesis by simp
  qed
  have g: "length (population_variance_gradient [1, 1]) = 2"
    by (simp add: population_variance_gradient_def)
  have c: "(2::real) \<le> 2" by simp
  from scenario_A_result [where solver = "\<lambda>_. Inr ?res" and vp = population_variance
      and vpg = population_variance_gradient and vpn = population_variance,
      OF scenario_init c e g]
  show ?thesis by simp
qed

theorem scenario_A_infeasible_counterexample:
  "MasterProblem_init [scenario_agent 1, scenario_agent 1] 1 0 ''variance'' ''timestep''
     = Inr (scenario_instance 1 1 1 0 ''variance'' ''timestep'')
   \<and> (\<exists>prob. snd (formulate (scenario_instance 1 1 1 0 ''variance'' ''timestep'')) = Inr prob
         \<and> \<not> (\<exists>\<sigma>. \<forall>c \<in> set (constraints prob). satisfies \<sigma> population_variance c))
   \<and> snd (solve (\<lambda>_. Inr infeasible_result) population_variance_gradient population_variance
            (scenario_instance 1 1 1 0 ''variance'' ''timestep'')) = Inl TypeError"
proof -
  let ?obj = "scenario_reward (Num 0)"
  have f: "formulate (scenario_instance 1 1 1 0 ''variance'' ''timestep'') =
           (scenario_formulated ?obj 1 1 1 0 ''variance'' ''timestep'',
            Inr (scenario_problem ?obj 1 1 1))"
    by (rule scenario_formulate_unweighted)
  have i: "\<not> (\<exists>\<sigma>. \<forall>c \<in> set (constraints (scenario_problem ?obj 1 1 1)).
               satisfies \<sigma> population_variance c)"
    by (auto simp: scenario_problem_def scenario_constraints_def)
  have s: "snd (solve (\<lambda>_. Inr infeasible_result) population_variance_gradient
                  population_variance (scenario_instance 1 1 1 0 ''variance'' ''timestep''))
           = Inl TypeError"
    unfolding solve_with_def f
    by (simp add: infeasible_result_def scenario_defs extraction_defs upt_rec [of 0]
        numeral_2_eq_2)
  from f i s show ?thesis by (simp add: scenario_init)
qed

lemma expected_claims_value_unset:
  assumes "agents m \<noteq> []"
    and "get_columns (agents m ! 0) = col # cols"
    and "decision_vars m =
         map (map (\<lambda>v. Variable (var_id v) (pr (var_id v)))) (create_decision_vars (agents m))"
    and "pr (0, 0) = None"
    and "weight col = Inr x"
  shows "expected_claims_value m 0 weight = Inl TypeError"
proof -
  have a: "0 < length (agents m)" using assms(1) by simp
  have d: "decision_vars m ! 0 =
           map (\<lambda>c. Variable (0, c) (pr (0, c))) [0..<length (get_columns (agents m ! 0))]"
    using a by (simp add: assms(3) create_decision_vars_nth)
  have l: "0 < length (decision_vars m)" using a by (simp add: assms(3))
  show ?thesis
    using a l assms(2,4,5)
    by (simp add: expected_claims_value_def py_index_def ebind_simps d value_mul_def
        upt_conv_Cons del: upt_Suc)
qed

text \<open>
  Claim C9 fails on the code. When the solver reports no value for the first variable
  (as it does for every variable of an infeasible or unbounded problem), the gradient
  computation that \<^verbatim>\<open>solve()\<close> runs after the solver multiplies None with a claim:
  \<^verbatim>\<open>solve()\<close> raises TypeError instead of returning its triple.
\<close>

theorem solve_raises_on_unset_values:
  assumes "formulate mp = (mp3, Inr prob)"
    and "solver prob = Inr res"
    and "res_primal res (0, 0) = None"
    and "well_shaped mp"
    and "agents mp \<noteq> []"
    and "get_columns (agents mp ! 0) \<noteq> []"
    and "0 < horizon mp"
    and "fairness_scope mp = ''timestep'' \<or> fairness_scope mp = ''cumulative''"
  shows "snd (solve solver vpg vpn mp) = Inl TypeError"
proof -
  define mp4 where "mp4 = install_solution res (num_agents mp3) mp3"
  from formulate_fields [OF assms(1)]
  have mp3: "mp3 = mp\<lparr>decision_vars := create_decision_vars (agents mp),
            resource_constraints := resource_constraints mp3, lp := lp mp3\<rparr>" .
  have f3: "agents mp3 = agents mp" "horizon mp3 = horizon mp" "num_agents mp3 = num_agents mp"
    "fairness_scope mp3 = fairness_scope mp"
    "decision_vars mp3 = create_decision_vars (agents mp)"
    by (subst mp3, simp)+
  have ag: "agents mp4 = agents mp"
    and h: "horizon mp4 = horizon mp"
    and n: "num_agents mp4 = num_agents mp"
    and sc: "fairness_scope mp4 = fairness_scope mp"
    by (simp_all add: mp4_def install_solution_def f3)
  have dv: "decision_vars mp4 =
         map (map (\<lambda>v. Variable (var_id v) (res_primal res (var_id v))))
             (create_decision_vars (agents mp4))"
    unfolding ag by (simp add: mp4_def f3)
  from assms(6) obtain col cols where cols: "get_columns (agents mp4 ! 0) = col # cols"
    by (cases "get_columns (agents mp ! 0)") (auto simp: ag)
  have ne: "agents mp4 \<noteq> []" using assms(5) by (simp add: ag)
  have "agents mp ! 0 \<in> set (agents mp)" using assms(5) by simp
  moreover have "col \<in> set (get_columns (agents mp ! 0))" using cols by (simp add: ag)
  ultimately have "horizon mp \<le> length (claims col)"
    using assms(4) by (simp add: well_shaped_def)
  with assms(7) have "0 < length (claims col)" by linarith
  then have w0: "py_index (claims col) 0 = Inr (claims col ! 0)"
    by (simp add: py_index_def)
  have e1: "expected_claims_value mp4 0 (\<lambda>column. py_index (claims column) 0) = Inl TypeError"
    by (rule expected_claims_value_unset
          [where weight = "\<lambda>column. py_index (claims column) 0" and pr = "res_primal res",
           OF ne cols dv assms(3) w0])
  have e2: "expected_claims_value mp4 0 (\<lambda>column. Inr (sum_list (claims column))) = Inl TypeError"
    by (rule expected_claims_value_unset
          [where weight = "\<lambda>column. Inr (sum_list (claims column))" and pr = "res_primal res",
           OF ne cols dv assms(3)]) simp
  have na: "0 < num_agents mp" using assms(4,5) by (simp add: well_shaped_def)
  have g: "compute_fairness_gradients vpg mp4 = Inl TypeError"
    using assms(7,8) na e1 e2
    by (auto simp: compute_fairness_gradients_def h n sc upt_conv_Cons ebind_simps
             simp del: upt_Suc)
  show ?thesis
    unfolding solve_with_def
    using assms(1,2) g by (simp add: Let_def mp4_def)
qed

theorem solve_raises_on_unset_values_witness:
  "snd (solve (\<lambda>_. Inr (infeasible_result\<lparr>res_status := ''unbounded'', res_value := PlusInfinity\<rparr>))
          population_variance_gradient population_variance
          (scenario_instance 3 4 5 0 ''variance'' ''cumulative'')) = Inl TypeError"
proof -
  let ?mp = "scenario_instance 3 4 5 0 ''variance'' ''cumulative''"
  let ?res = "infeasible_result\<lparr>res_status := ''unbounded'', res_value := PlusInfinity\<rparr>"
  have f: "formulate ?mp = (scenario_formulated (scenario_reward (Num 0)) 3 4 5 0
                              ''variance'' ''cumulative'',
                            Inr (scenario_problem (scenario_reward (Num 0)) 3 4 5))"
    by (rule scenario_formulate_unweighted)
  have s: "(\<lambda>_. Inr ?res) (scenario_problem (scenario_reward (Num 0)) 3 4 5) = Inr ?res" by simp
  have p: "res_primal ?res (0, 0) = None" by (simp add: infeasible_result_def)
  have w: "well_shaped ?mp"
    by (simp add: well_shaped_def scenario_instance_def scenario_agent_def broadcastable_def)
  have a: "agents ?mp \<noteq> []" "get_columns (agents ?mp ! 0) \<noteq> []" "0 < horizon ?mp"
    "fairness_scope ?mp = ''timestep'' \<or> fairness_scope ?mp = ''cumulative''"
    by (simp_all add: scenario_instance_def scenario_agent_def)
  show ?thesis
    by (rule solve_raises_on_unset_values [where solver = "\<lambda>_. Inr ?res", OF f s p w a])
qed

lemma mapM_upt_Inr:
  assumes "mapM f [0..<n] = Inr ys"
    and "\<And>i y. i < n \<Longrightarrow> f i = Inr y \<Longrightarrow> y = g i"
  shows "ys = map g [0..<n]"
proof (rule nth_equalityI)
  show "length ys = length (map g [0..<n])" using mapM_length [OF assms(1)] by simp
next
  fix i assume "i < length ys"
  then have i: "i < n" using mapM_length [OF assms(1)] by simp
  with mapM_nth [OF assms(1), of i] have "f i = Inr (ys ! i)" by simp
  from assms(2) [OF i this] i show "ys ! i = map g [0..<n] ! i" by simp
qed

lemma expected_claims_value_fold:
  assumes "foldM (\<lambda>val (c, column).
               ebind (py_index dvs a) (\<lambda>vs.
               ebind (py_index vs c) (\<lambda>var.
               ebind (weight column) (\<lambda>w.
               ebind (value_mul (var_value var) w) (\<lambda>x.
                 Inr (val + x))))))
             acc (enumerate n cols) = Inr v"
    and "\<And>col x. weight col = Inr x \<Longrightarrow> x = w col"
  shows "v = acc + (\<Sum>(c, column) \<leftarrow> enumerate n cols.
                      (case var_value (dvs ! a ! c) of Some x \<Rightarrow> x | None \<Rightarrow> 0) * w column)"
  using assms(1)
proof (induction cols arbitrary: n acc)
  case Nil
  then show ?case by simp
next
  case (Cons col cols)
  let ?step = "ebind (py_index dvs a) (\<lambda>vs.
               ebind (py_index vs n) (\<lambda>var.
               ebind (weight col) (\<lambda>w.
               ebind (value_mul (var_value var) w) (\<lambda>x.
                 Inr (acc + x)))))"
  from Cons.prems obtain acc' where step: "?step = Inr acc'"
    and rest: "foldM (\<lambda>val (c, column).
               ebind (py_index dvs a) (\<lambda>vs.
               ebind (py_index vs c) (\<lambda>var.
               ebind (weight column) (\<lambda>w.
               ebind (value_mul (var_value var) w) (\<lambda>x.
                 Inr (val + x))))))
             acc' (enumerate (Suc n) cols) = Inr v"
    by (cases ?step) (simp_all add: ebind_simps)
  from step obtain x p where "weight col = Inr x" "var_value (dvs ! a ! n) = Some p"
    "acc' = acc + p * x"
    by (auto simp: ebind_def py_index_def value_mul_def split: sum.splits if_splits option.splits)
  with assms(2) [of col x] have "acc' = acc + (case var_value (dvs ! a ! n) of Some x \<Rightarrow> x | None \<Rightarrow> 0) * w col"
    by simp
  with Cons.IH [OF rest] show ?case by simp
qed

lemma expected_claims_value_Inr:
  assumes "expected_claims_value mp a weight = Inr v"
    and "\<And>col x. weight col = Inr x \<Longrightarrow> x = w col"
  shows "v = expected_claim (solved_value mp) mp a w"
proof -
  from assms(1) have a: "a < length (agents mp)"
    by (auto simp: expected_claims_value_def py_index_def ebind_simps split: if_splits)
  with assms(1) have "foldM (\<lambda>val (c, column).
               ebind (py_index (decision_vars mp) a) (\<lambda>vs.
               ebind (py_index vs c) (\<lambda>var.
               ebind (weight column) (\<lambda>w.
               ebind (value_mul (var_value var) w) (\<lambda>x.
                 Inr (val + x))))))
             0 (enumerate 0 (get_columns (agents mp ! a))) = Inr v"
    by (simp add: expected_claims_value_def py_index_def ebind_simps)
  from expected_claims_value_fold [OF this assms(2)]
  show ?thesis by (simp add: expected_claim_def solved_value_def)
qed

lemma expected_claims_vector:
  assumes "mapM (\<lambda>a. expected_claims_value mp a weight) [0..<n] = Inr ec"
    and "\<And>col x. weight col = Inr x \<Longrightarrow> x = w col"
  shows "ec = map (\<lambda>a. expected_claim (solved_value mp) mp a w) [0..<n]"
  using assms(1)
proof (rule mapM_upt_Inr)
  fix i y assume "expected_claims_value mp i weight = Inr y"
  then show "y = expected_claim (solved_value mp) mp i w"
    by (rule expected_claims_value_Inr) (rule assms(2))
qed

lemma ebind_Inr_iff: "ebind m f = Inr y \<longleftrightarrow> (\<exists>x. m = Inr x \<and> f x = Inr y)"
  by (cases m) (simp_all add: ebind_simps)

lemma py_index_Inr: "py_index xs i = Inr x \<Longrightarrow> x = xs ! i"
  by (simp add: py_index_def split: if_splits)

lemma gradients_cumulative:
  assumes "compute_fairness_gradients vpg mp = Inr g"
    and "fairness_scope mp = ''cumulative''"
  shows "g = map (\<lambda>a. replicate (horizon mp)
                 (vpg (map (\<lambda>a'. expected_claim (solved_value mp) mp a'
                                   (\<lambda>col. sum_list (claims col)))
                           [0..<num_agents mp]) ! a))
               [0..<num_agents mp]"
proof -
  let ?ec = "map (\<lambda>a'. expected_claim (solved_value mp) mp a' (\<lambda>col. sum_list (claims col)))
                 [0..<num_agents mp]"
  from assms obtain ec where
    ec: "mapM (\<lambda>a. expected_claims_value mp a (\<lambda>column. Inr (sum_list (claims column))))
              [0..<num_agents mp] = Inr ec"
    and g: "mapM (\<lambda>a. ebind (py_index (vpg ec) a) (\<lambda>g. Inr (replicate (horizon mp) g)))
              [0..<num_agents mp] = Inr g"
    by (auto simp: compute_fairness_gradients_def ebind_Inr_iff split: if_splits)
  have "ec = ?ec"
    by (rule expected_claims_vector [OF ec]) simp
  with g show ?thesis
    by (intro mapM_upt_Inr [OF g]) (auto simp: ebind_Inr_iff dest: py_index_Inr)
qed

lemma gradients_timestep:
  assumes "compute_fairness_gradients vpg mp = Inr g"
    and "fairness_scope mp = ''timestep''"
  shows "g = map (\<lambda>a. map (\<lambda>t.
                 vpg (map (\<lambda>a'. expected_claim (solved_value mp) mp a' (\<lambda>col. claims col ! t))
                          [0..<num_agents mp]) ! a)
                 [0..<horizon mp])
               [0..<num_agents mp]"
proof -
  let ?ec = "\<lambda>t. map (\<lambda>a'. expected_claim (solved_value mp) mp a' (\<lambda>col. claims col ! t))
                 [0..<num_agents mp]"
  let ?F = "\<lambda>t. ebind (mapM (\<lambda>a. expected_claims_value mp a (\<lambda>column. py_index (claims column) t))
                             [0..<num_agents mp]) (\<lambda>expected_claims_t.
                   if fairness_type mp = ''variance'' then Inr (vpg expected_claims_t)
                   else Inl NotImplementedError)"
  from assms obtain gradients where
    gr: "mapM ?F [0..<horizon mp] = Inr gradients"
    and g: "mapM (\<lambda>a. mapM (\<lambda>t. ebind (py_index gradients t) (\<lambda>grad_t. py_index grad_t a))
                          [0..<horizon mp])
               [0..<num_agents mp] = Inr g"
    by (auto simp: compute_fairness_gradients_def ebind_Inr_iff)
  have grads: "gradients = map (\<lambda>t. vpg (?ec t)) [0..<horizon mp]"
    using gr
  proof (rule mapM_upt_Inr)
    fix t y assume "t < horizon mp" and "?F t = Inr y"
    then obtain ec where
      ec: "mapM (\<lambda>a. expected_claims_value mp a (\<lambda>column. py_index (claims column) t))
                [0..<num_agents mp] = Inr ec" and y: "y = vpg ec"
      by (auto simp: ebind_Inr_iff split: if_splits)
    have "ec = ?ec t"
      by (rule expected_claims_vector [OF ec]) (rule py_index_Inr)
    with y show "y = vpg (?ec t)" by simp
  qed
  show ?thesis
    using g
  proof (rule mapM_upt_Inr)
    fix a row
    assume "a < num_agents mp"
      and row: "mapM (\<lambda>t. ebind (py_index gradients t) (\<lambda>grad_t. py_index grad_t a))
                   [0..<horizon mp] = Inr row"
    show "row = map (\<lambda>t. vpg (?ec t) ! a) [0..<horizon mp]"
      using row
    proof (rule mapM_upt_Inr)
      fix t y
      assume t: "t < horizon mp"
        and "ebind (py_index gradients t) (\<lambda>grad_t. py_index grad_t a) = Inr y"
      then have "y = gradients ! t ! a"
        by (auto simp: ebind_Inr_iff dest!: py_index_Inr)
      with t show "y = vpg (?ec t) ! a" by (simp add: grads)
    qed
  qed
qed

lemma solve_Inr_gradients:
  assumes "solve solver vpg vpn mp = (mp', Inr result)"
  shows "\<exists>g. compute_fairness_gradients vpg mp' = Inr g"
  using assms unfolding solve_with_def Let_def
  by (auto split: prod.splits sum.splits)

lemma solve_config:
  "agents (fst (solve solver vpg vpn mp)) = agents mp \<and>
   horizon (fst (solve solver vpg vpn mp)) = horizon mp \<and>
   num_agents (fst (solve solver vpg vpn mp)) = num_agents mp \<and>
   resource_capacity (fst (solve solver vpg vpn mp)) = resource_capacity mp \<and>
   langrangian_weight (fst (solve solver vpg vpn mp)) = langrangian_weight mp \<and>
   fairness_type (fst (solve solver vpg vpn mp)) = fairness_type mp \<and>
   fairness_scope (fst (solve solver vpg vpn mp)) = fairness_scope mp"
proof -
  define m where "m = fst (formulate mp)"
  from formulate_fields [of mp m "snd (formulate mp)"]
  have m: "m = mp\<lparr>decision_vars := create_decision_vars (agents mp),
            resource_constraints := resource_constraints m, lp := lp m\<rparr>"
    by (simp add: m_def)
  have c: "agents m = agents mp" "horizon m = horizon mp" "num_agents m = num_agents mp"
    "resource_capacity m = resource_capacity mp" "langrangian_weight m = langrangian_weight mp"
    "fairness_type m = fairness_type mp" "fairness_scope m = fairness_scope mp"
    by (subst m, simp)+
  from solve_state [of solver vpg vpn mp]
  consider "fst (solve solver vpg vpn mp) = m"
    | res where "fst (solve solver vpg vpn mp) = install_solution res (num_agents m) m"
    unfolding m_def by blast
  then show ?thesis
    by cases (simp_all add: c install_solution_def)
qed

text \<open>
  Claim C6. After a call of \<^verbatim>\<open>solve()\<close> that returned, \<^verbatim>\<open>compute_fairness_gradients()\<close>
  on the solved instance returns, under the cumulative scope, for each agent the entry
  of the gradient primitive at the cumulative expected claims, repeated \<open>horizon\<close>
  times; under the timestep scope, for each agent the vector of length \<open>horizon\<close> whose
  entry at period \<open>t\<close> is the agent's entry of the gradient primitive at the expected
  claims of the agents at period \<open>t\<close>.
\<close>

theorem fairness_gradients_after_solve:
  assumes "solve solver vpg vpn mp = (mp', Inr result)"
  shows "agents mp' = agents mp \<and> horizon mp' = horizon mp \<and> num_agents mp' = num_agents mp
       \<and> fairness_scope mp' = fairness_scope mp
       \<and> (fairness_scope mp' = ''cumulative'' \<longrightarrow>
            compute_fairness_gradients vpg mp' =
              Inr (map (\<lambda>a. replicate (horizon mp')
                     (vpg (map (\<lambda>a'. expected_claim (solved_value mp') mp' a'
                                       (\<lambda>col. sum_list (claims col)))
                               [0..<num_agents mp']) ! a))
                   [0..<num_agents mp']))
       \<and> (fairness_scope mp' = ''timestep'' \<longrightarrow>
            compute_fairness_gradients vpg mp' =
              Inr (map (\<lambda>a. map (\<lambda>t.
                     vpg (map (\<lambda>a'. expected_claim (solved_value mp') mp' a'
                                      (\<lambda>col. claims col ! t))
                              [0..<num_agents mp']) ! a)
                     [0..<horizon mp'])
                   [0..<num_agents mp']))"
proof -
  from solve_Inr_gradients [OF assms] obtain g where
    g: "compute_fairness_gradients vpg mp' = Inr g" by blast
  have "mp' = fst (solve solver vpg vpn mp)" using assms by simp
  with solve_config [of solver vpg vpn mp]
  have "agents mp' = agents mp \<and> horizon mp' = horizon mp \<and> num_agents mp' = num_agents mp
       \<and> fairness_scope mp' = fairness_scope mp" by simp
  then show ?thesis
    using gradients_cumulative [OF g] gradients_timestep [OF g] g by simp
qed

lemma scenario_solve_cumulative:
  "solve (\<lambda>_. Inr (optimal_result 2 (\<lambda>_. 1) (\<lambda>_. None)))
          population_variance_gradient population_variance
          (scenario_instance 3 1 4 0 ''variance'' ''cumulative'') =
   (install_solution (optimal_result 2 (\<lambda>_. 1) (\<lambda>_. None)) 2
      (scenario_formulated (scenario_reward (Num 0)) 3 1 4 0 ''variance'' ''cumulative''),
    Inr (Finite 2, [[1], [1]], 0))"
  unfolding solve_with_def scenario_formulate_unweighted
  by (simp add: optimal_result_def scenario_defs extraction_defs upt_rec [of 0] numeral_2_eq_2
      population_variance_gradient_def population_variance_def)


lemma scenario_solve_timestep:
  "solve (\<lambda>_. Inr (optimal_result 2 (\<lambda>_. 1) (\<lambda>_. None)))
          population_variance_gradient population_variance
          (scenario_instance 3 1 4 0 ''variance'' ''timestep'') =
   (install_solution (optimal_result 2 (\<lambda>_. 1) (\<lambda>_. None)) 2
      (scenario_formulated (scenario_reward (Num 0)) 3 1 4 0 ''variance'' ''timestep''),
    Inr (Finite 2, [[1], [1]], 0))"
  unfolding solve_with_def scenario_formulate_unweighted
  by (simp add: optimal_result_def scenario_defs extraction_defs upt_rec [of 0] numeral_2_eq_2
      population_variance_gradient_def population_variance_def)

theorem fairness_gradients_after_solve_witness:
  "compute_fairness_gradients population_variance_gradient
     (install_solution (optimal_result 2 (\<lambda>_. 1) (\<lambda>_. None)) 2
        (scenario_formulated (scenario_reward (Num 0)) 3 1 4 0 ''variance'' ''cumulative''))
   = Inr [[1], [-1]]
   \<and> compute_fairness_gradients population_variance_gradient
     (install_solution (optimal_result 2 (\<lambda>_. 1) (\<lambda>_. None)) 2
        (scenario_formulated (scenario_reward (Num 0)) 3 1 4 0 ''variance'' ''timestep''))
   = Inr [[1], [-1]]"
proof -
  let ?m = "install_solution (optimal_result 2 (\<lambda>_. 1) (\<lambda>_. None)) 2
        (scenario_formulated (scenario_reward (Num 0)) 3 1 4 0 ''variance'' ''cumulative'')"
  let ?k = "install_solution (optimal_result 2 (\<lambda>_. 1) (\<lambda>_. None)) 2
        (scenario_formulated (scenario_reward (Num 0)) 3 1 4 0 ''variance'' ''timestep'')"
  have s: "fairness_scope ?m = ''cumulative''" "horizon ?m = 1" "num_agents ?m = 2"
    and s': "fairness_scope ?k = ''timestep''" "horizon ?k = 1" "num_agents ?k = 2"
    by (simp_all add: install_solution_def scenario_defs)
  have u: "[0..<2::nat] = [0, Suc 0]" "[0..<1::nat] = [0]"
    by (simp_all add: upt_rec [of 0] numeral_2_eq_2)
  have e: "expected_claim (solved_value ?m) ?m 0 (\<lambda>col. sum_list (claims col)) = 3"
    "expected_claim (solved_value ?m) ?m (Suc 0) (\<lambda>col. sum_list (claims col)) = 1"
    and e': "expected_claim (solved_value ?k) ?k 0 (\<lambda>col. claims col ! 0) = 3"
    "expected_claim (solved_value ?k) ?k (Suc 0) (\<lambda>col. claims col ! 0) = 1"
    by (simp_all add: expected_claim_def solved_value_def install_solution_def scenario_defs
        optimal_result_def)
  from fairness_gradients_after_solve [OF scenario_solve_cumulative]
  have "compute_fairness_gradients population_variance_gradient ?m =
              Inr (map (\<lambda>a. replicate (horizon ?m)
                     (population_variance_gradient
                        (map (\<lambda>a'. expected_claim (solved_value ?m) ?m a'
                                       (\<lambda>col. sum_list (claims col)))
                               [0..<num_agents ?m]) ! a))
                   [0..<num_agents ?m])"
    using s(1) by blast
  then have "compute_fairness_gradients population_variance_gradient ?m =
              Inr [replicate 1 (population_variance_gradient [3, 1] ! 0),
                   replicate 1 (population_variance_gradient [3, 1] ! Suc 0)]"
    unfolding s u list.map e .
  then have c: "compute_fairness_gradients population_variance_gradient ?m = Inr [[1], [-1]]"
    by (simp add: population_variance_gradient_def)
  from fairness_gradients_after_solve [OF scenario_solve_timestep]
  have "compute_fairness_gradients population_variance_gradient ?k =
              Inr (map (\<lambda>a. map (\<lambda>t.
                     population_variance_gradient
                       (map (\<lambda>a'. expected_claim (solved_value ?k) ?k a'
                                      (\<lambda>col. claims col ! t))
                              [0..<num_agents ?k]) ! a)
                     [0..<horizon ?k])
                   [0..<num_agents ?k])"
    using s'(1) by blast
  then have "compute_fairness_gradients population_variance_gradient ?k =
              Inr [[population_variance_gradient [3, 1] ! 0],
                   [population_variance_gradient [3, 1] ! Suc 0]]"
    unfolding s' u list.map e' .
  then have t: "compute_fairness_gradients population_variance_gradient ?k = Inr [[1], [-1]]"
    by (simp add: population_variance_gradient_def)
  from c t show ?thesis by blast
qed

lemma expected_claims_value_fairness_type [simp]:
  "expected_claims_value (mp\<lparr>fairness_type := ft\<rparr>) = expected_claims_value mp"
  by (intro ext) (simp add: expected_claims_value_def)

lemma realized_penalty_ignores_fairness_type:
  "compute_realized_fairness_penalty vpn (mp\<lparr>fairness_type := ft\<rparr>) =
   compute_realized_fairness_penalty vpn mp"
  by (simp add: compute_realized_fairness_penalty_def)

lemma gradients_not_implemented:
  assumes "fairness_type mp \<noteq> ''variance''"
    and "compute_fairness_gradients vpg (mp\<lparr>fairness_type := ''variance''\<rparr>) = Inr g"
    and "fairness_scope mp = ''cumulative'' \<or> 0 < horizon mp"
  shows "compute_fairness_gradients vpg mp = Inl NotImplementedError"
proof (cases "fairness_scope mp = ''timestep''")
  case True
  with assms(3) have h: "0 < horizon mp" by auto
  let ?F = "\<lambda>ft t. ebind (mapM (\<lambda>a. expected_claims_value mp a (\<lambda>column. py_index (claims column) t))
                             [0..<num_agents mp]) (\<lambda>expected_claims_t.
                   if ft = ''variance'' then Inr (vpg expected_claims_t)
                   else Inl NotImplementedError)"
  from assms(2) True obtain gradients where
    "mapM (?F ''variance'') [0..<horizon mp] = Inr gradients"
    by (auto simp: compute_fairness_gradients_def ebind_Inr_iff)
  from mapM_nth [OF this, of 0] h obtain ec where
    "mapM (\<lambda>a. expected_claims_value mp a (\<lambda>column. py_index (claims column) 0))
                             [0..<num_agents mp] = Inr ec"
    by (auto simp: ebind_Inr_iff)
  then have "?F (fairness_type mp) 0 = Inl NotImplementedError"
    using assms(1) by (simp add: ebind_simps)
  then have "mapM (?F (fairness_type mp)) [0..<horizon mp] = Inl NotImplementedError"
    using h by (simp add: upt_conv_Cons ebind_simps del: upt_Suc)
  then show ?thesis
    using True by (simp add: compute_fairness_gradients_def ebind_simps)
next
  case False
  with assms(2) have c: "fairness_scope mp = ''cumulative''"
    by (auto simp: compute_fairness_gradients_def split: if_splits)
  with assms(2) obtain ec where
    "mapM (\<lambda>a. expected_claims_value mp a (\<lambda>column. Inr (sum_list (claims column))))
                    [0..<num_agents mp] = Inr ec"
    by (auto simp: compute_fairness_gradients_def ebind_Inr_iff)
  then show ?thesis
    using c assms(1) by (simp add: compute_fairness_gradients_def ebind_simps)
qed

text \<open>
  Claim C4 fails on the code for the realized-penalty path:
  \<^verbatim>\<open>compute_realized_fairness_penalty()\<close> never reads \<^verbatim>\<open>fairness_type\<close>. On the instance
  with \<^verbatim>\<open>fairness_type = "gini"\<close>, after \<^verbatim>\<open>solve()\<close> has raised NotImplementedError from
  the gradient computation, it returns the variance of the expected claims, under
  either scope.
\<close>

theorem realized_penalty_other_fairness_type:
  "solve (\<lambda>_. Inr (optimal_result 2 (\<lambda>_. 1) (\<lambda>_. None)))
          population_variance_gradient population_variance
          (scenario_instance 1 0 1 0 ''gini'' ''timestep'') =
     (install_solution (optimal_result 2 (\<lambda>_. 1) (\<lambda>_. None)) 2
        (scenario_formulated (scenario_reward (Num 0)) 1 0 1 0 ''gini'' ''timestep''),
      Inl NotImplementedError)
   \<and> compute_realized_fairness_penalty population_variance
       (install_solution (optimal_result 2 (\<lambda>_. 1) (\<lambda>_. None)) 2
          (scenario_formulated (scenario_reward (Num 0)) 1 0 1 0 ''gini'' ''timestep''))
     = Inr (1 / 4)
   \<and> compute_realized_fairness_penalty population_variance
       (install_solution (optimal_result 2 (\<lambda>_. 1) (\<lambda>_. None)) 2
          (scenario_formulated (scenario_reward (Num 0)) 1 0 1 0 ''gini'' ''cumulative''))
     = Inr (1 / 4)"
  unfolding solve_with_def scenario_formulate_unweighted
  by (simp add: optimal_result_def scenario_defs extraction_defs upt_rec [of 0] numeral_2_eq_2
      population_variance_gradient_def population_variance_def power2_eq_square)

lemma fresh_var_id:
  assumes "decision_vars mp = create_decision_vars (agents mp)"
    and "a < length (agents mp)" and "c < length (decision_vars mp ! a)"
  shows "var_id (decision_vars mp ! a ! c) = (a, c)"
  using assms by (simp add: create_decision_vars_nth)

lemma expected_claims_expr_fold:
  assumes "foldM (\<lambda>expr (c, column).
               ebind (py_index dvs a) (\<lambda>vs.
               ebind (py_index vs c) (\<lambda>var.
               ebind (weight column) (\<lambda>w.
                 Inr (Add expr (Mul (Var (var_id var)) (Num w)))))))
             acc (enumerate n cols) = Inr e"
    and "\<And>col x. weight col = Inr x \<Longrightarrow> x = w col"
    and "\<And>c. c < length (dvs ! a) \<Longrightarrow> var_id (dvs ! a ! c) = (a, c)"
  shows "eval \<sigma> vp e = eval \<sigma> vp acc + (\<Sum>(c, column) \<leftarrow> enumerate n cols. \<sigma> (a, c) * w column)
       \<and> (has_penalty e \<longleftrightarrow> has_penalty acc)"
  using assms(1)
proof (induction cols arbitrary: n acc)
  case Nil
  then show ?case by simp
next
  case (Cons col cols)
  let ?step = "ebind (py_index dvs a) (\<lambda>vs.
               ebind (py_index vs n) (\<lambda>var.
               ebind (weight col) (\<lambda>w.
                 Inr (Add acc (Mul (Var (var_id var)) (Num w))))))"
  from Cons.prems obtain acc' where step: "?step = Inr acc'"
    and rest: "foldM (\<lambda>expr (c, column).
               ebind (py_index dvs a) (\<lambda>vs.
               ebind (py_index vs c) (\<lambda>var.
               ebind (weight column) (\<lambda>w.
                 Inr (Add expr (Mul (Var (var_id var)) (Num w)))))))
             acc' (enumerate (Suc n) cols) = Inr e"
    by (cases ?step) (simp_all add: ebind_simps)
  from step obtain x where "weight col = Inr x" "n < length (dvs ! a)"
    "acc' = Add acc (Mul (Var (var_id (dvs ! a ! n))) (Num x))"
    by (auto simp: ebind_def py_index_def split: sum.splits if_splits)
  with assms(2) [of col x] assms(3) [of n]
  have "acc' = Add acc (Mul (Var (a, n)) (Num (w col)))" by simp
  with Cons.IH [OF rest] show ?case by simp
qed

lemma expected_claims_expr_eval:
  assumes "expected_claims_expr mp a weight = Inr e"
    and "decision_vars mp = create_decision_vars (agents mp)"
    and "\<And>col x. weight col = Inr x \<Longrightarrow> x = w col"
  shows "eval \<sigma> vp e = expected_claim \<sigma> mp a w"
proof -
  from assms(1) have a: "a < length (agents mp)"
    by (auto simp: expected_claims_expr_def py_index_def ebind_simps split: if_splits)
  with assms(1) have f: "foldM (\<lambda>expr (c, column).
               ebind (py_index (decision_vars mp) a) (\<lambda>vs.
               ebind (py_index vs c) (\<lambda>var.
               ebind (weight column) (\<lambda>w.
                 Inr (Add expr (Mul (Var (var_id var)) (Num w)))))))
             (Num 0) (enumerate 0 (get_columns (agents mp ! a))) = Inr e"
    by (simp add: expected_claims_expr_def py_index_def ebind_simps)
  from expected_claims_expr_fold [where \<sigma> = \<sigma> and vp = vp, OF f assms(3)
      fresh_var_id [OF assms(2) a]]
  show ?thesis by (simp add: expected_claim_def)
qed

lemma expected_claims_exprs_eval:
  assumes "mapM (\<lambda>a. expected_claims_expr mp a weight) [0..<n] = Inr ecs"
    and "decision_vars mp = create_decision_vars (agents mp)"
    and "\<And>col x. weight col = Inr x \<Longrightarrow> x = w col"
  shows "map (eval \<sigma> vp) ecs = map (\<lambda>a. expected_claim \<sigma> mp a w) [0..<n]"
proof (rule nth_equalityI)
  show "length (map (eval \<sigma> vp) ecs) = length (map (\<lambda>a. expected_claim \<sigma> mp a w) [0..<n])"
    using mapM_length [OF assms(1)] by simp
next
  fix i assume "i < length (map (eval \<sigma> vp) ecs)"
  then have i: "i < n" using mapM_length [OF assms(1)] by simp
  with mapM_nth [OF assms(1), of i] have "expected_claims_expr mp i weight = Inr (ecs ! i)"
    by simp
  from expected_claims_expr_eval [OF this assms(2,3)] i mapM_length [OF assms(1)]
  show "map (eval \<sigma> vp) ecs ! i = map (\<lambda>a. expected_claim \<sigma> mp a w) [0..<n] ! i"
    by simp
qed

lemma reward_inner_fold:
  assumes "foldM (\<lambda>tot (c, column).
                     ebind (np_mul (fixed_cost_vector ag) (claims column)) (\<lambda>costs.
                     ebind (py_index dvs a) (\<lambda>vs.
                     ebind (py_index vs c) (\<lambda>var.
                       Inr (Add tot
                              (Mul (Var (var_id var))
                                   (Num (sum_list (reward column) - sum_list costs))))))))
                   acc (enumerate n cols) = Inr e"
    and "\<And>c. c < length (dvs ! a) \<Longrightarrow> var_id (dvs ! a ! c) = (a, c)"
  shows "eval \<sigma> vp e = eval \<sigma> vp acc
            + (\<Sum>(c, col) \<leftarrow> enumerate n cols. \<sigma> (a, c) * net_value ag col)
       \<and> (has_penalty e \<longleftrightarrow> has_penalty acc)"
  using assms(1)
proof (induction cols arbitrary: n acc)
  case Nil
  then show ?case by simp
next
  case (Cons col cols)
  let ?step = "ebind (np_mul (fixed_cost_vector ag) (claims col)) (\<lambda>costs.
                     ebind (py_index dvs a) (\<lambda>vs.
                     ebind (py_index vs n) (\<lambda>var.
                       Inr (Add acc
                              (Mul (Var (var_id var))
                                   (Num (sum_list (reward col) - sum_list costs)))))))"
  from Cons.prems obtain acc' where step: "?step = Inr acc'"
    and rest: "foldM (\<lambda>tot (c, column).
                     ebind (np_mul (fixed_cost_vector ag) (claims column)) (\<lambda>costs.
                     ebind (py_index dvs a) (\<lambda>vs.
                     ebind (py_index vs c) (\<lambda>var.
                       Inr (Add tot
                              (Mul (Var (var_id var))
                                   (Num (sum_list (reward column) - sum_list costs))))))))
             acc' (enumerate (Suc n) cols) = Inr e"
    by (cases ?step) (simp_all add: ebind_simps)
  from step have "n < length (dvs ! a)"
    "acc' = Add acc (Mul (Var (var_id (dvs ! a ! n))) (Num (net_value ag col)))"
    by (auto simp: ebind_def py_index_def np_mul_def net_value_def split: sum.splits if_splits)
  with assms(2) [of n]
  have "acc' = Add acc (Mul (Var (a, n)) (Num (net_value ag col)))" by simp
  with Cons.IH [OF rest] show ?case by simp
qed

lemma reward_outer_fold:
  assumes "foldM (\<lambda>tot (a, agent).
             foldM (\<lambda>tot (c, column).
                     ebind (np_mul (fixed_cost_vector agent) (claims column)) (\<lambda>costs.
                     ebind (py_index dvs a) (\<lambda>vs.
                     ebind (py_index vs c) (\<lambda>var.
                       Inr (Add tot
                              (Mul (Var (var_id var))
                                   (Num (sum_list (reward column) - sum_list costs))))))))
                   tot (enumerate 0 (get_columns agent)))
           acc (enumerate n ags) = Inr e"
    and "\<And>a c. a < N \<Longrightarrow> c < length (dvs ! a) \<Longrightarrow> var_id (dvs ! a ! c) = (a, c)"
    and "n + length ags \<le> N"
  shows "eval \<sigma> vp e = eval \<sigma> vp acc
            + (\<Sum>(a, ag) \<leftarrow> enumerate n ags.
                 \<Sum>(c, col) \<leftarrow> enumerate 0 (get_columns ag). \<sigma> (a, c) * net_value ag col)
       \<and> (has_penalty e \<longleftrightarrow> has_penalty acc)"
  using assms(1,3)
proof (induction ags arbitrary: n acc)
  case Nil
  then show ?case by simp
next
  case (Cons ag ags)
  let ?inner = "foldM (\<lambda>tot (c, column).
                     ebind (np_mul (fixed_cost_vector ag) (claims column)) (\<lambda>costs.
                     ebind (py_index dvs n) (\<lambda>vs.
                     ebind (py_index vs c) (\<lambda>var.
                       Inr (Add tot
                              (Mul (Var (var_id var))
                                   (Num (sum_list (reward column) - sum_list costs))))))))
                   acc (enumerate 0 (get_columns ag))"
  from Cons.prems obtain acc' where step: "?inner = Inr acc'"
    and rest: "foldM (\<lambda>tot (a, agent).
             foldM (\<lambda>tot (c, column).
                     ebind (np_mul (fixed_cost_vector agent) (claims column)) (\<lambda>costs.
                     ebind (py_index dvs a) (\<lambda>vs.
                     ebind (py_index vs c) (\<lambda>var.
                       Inr (Add tot
                              (Mul (Var (var_id var))
                                   (Num (sum_list (reward column) - sum_list costs))))))))
                   tot (enumerate 0 (get_columns agent)))
           acc' (enumerate (Suc n) ags) = Inr e"
    by (cases ?inner) (simp_all add: ebind_simps)
  from Cons.prems(2) have n: "n < N" "Suc n + length ags \<le> N" by simp_all
  from reward_inner_fold [where \<sigma> = \<sigma> and vp = vp, OF step assms(2) [OF n(1)]]
    Cons.IH [OF rest n(2)]
  show ?case by simp
qed

lemma add_expected_reward_eval:
  assumes "add_expected_reward mp e0 = Inr e"
    and "decision_vars mp = create_decision_vars (agents mp)"
  shows "eval \<sigma> vp e = eval \<sigma> vp e0 + total_expected_reward \<sigma> mp
       \<and> (has_penalty e \<longleftrightarrow> has_penalty e0)"
  using reward_outer_fold [where \<sigma> = \<sigma> and vp = vp and N = "length (agents mp)"
      and dvs = "decision_vars mp" and n = 0 and ags = "agents mp",
      OF assms(1) [unfolded add_expected_reward_def] fresh_var_id [OF assms(2)]]
  by (simp add: total_expected_reward_def)

lemma penalty_timestep_fold:
  assumes "foldM (\<lambda>tot t.
                  ebind (mapM (\<lambda>a. expected_claims_expr mp a (\<lambda>column. py_index (claims column) t))
                              [0..<n]) (\<lambda>expected_claims_t.
                    if ft = ''variance''
                    then Inr (Sub tot (Mul (Num lw) (VarPen expected_claims_t)))
                    else Inl UnboundLocalError))
                acc ts = Inr e"
    and "decision_vars mp = create_decision_vars (agents mp)"
  shows "eval \<sigma> vp e = eval \<sigma> vp acc
           - lw * (\<Sum>t \<leftarrow> ts. vp (map (\<lambda>a. expected_claim \<sigma> mp a (\<lambda>col. claims col ! t)) [0..<n]))
       \<and> (has_penalty e \<longleftrightarrow> has_penalty acc \<or> ts \<noteq> [])"
  using assms(1)
proof (induction ts arbitrary: acc)
  case Nil
  then show ?case by simp
next
  case (Cons t ts)
  let ?step = "ebind (mapM (\<lambda>a. expected_claims_expr mp a (\<lambda>column. py_index (claims column) t))
                              [0..<n]) (\<lambda>expected_claims_t.
                    if ft = ''variance''
                    then Inr (Sub acc (Mul (Num lw) (VarPen expected_claims_t)))
                    else Inl UnboundLocalError)"
  from Cons.prems obtain acc' where step: "?step = Inr acc'"
    and rest: "foldM (\<lambda>tot t.
                  ebind (mapM (\<lambda>a. expected_claims_expr mp a (\<lambda>column. py_index (claims column) t))
                              [0..<n]) (\<lambda>expected_claims_t.
                    if ft = ''variance''
                    then Inr (Sub tot (Mul (Num lw) (VarPen expected_claims_t)))
                    else Inl UnboundLocalError))
                acc' ts = Inr e"
    by (cases ?step) (simp_all add: ebind_simps)
  from step obtain ecs where
    ecs: "mapM (\<lambda>a. expected_claims_expr mp a (\<lambda>column. py_index (claims column) t)) [0..<n]
          = Inr ecs"
    and acc': "acc' = Sub acc (Mul (Num lw) (VarPen ecs))"
    by (auto simp: ebind_Inr_iff split: if_splits)
  have "map (eval \<sigma> vp) ecs = map (\<lambda>a. expected_claim \<sigma> mp a (\<lambda>col. claims col ! t)) [0..<n]"
    by (rule expected_claims_exprs_eval [OF ecs assms(2)]) (rule py_index_Inr)
  with Cons.IH [OF rest] acc' show ?case
    by (simp add: algebra_simps)
qed

lemma fairness_objective_eval:
  assumes "fairness_objective mp = Inr e0"
    and "decision_vars mp = create_decision_vars (agents mp)"
  shows "eval \<sigma> vp e0 =
           - (if 0 < langrangian_weight mp
              then langrangian_weight mp * fairness_penalty vp \<sigma> mp else 0)
       \<and> (has_penalty e0 \<longleftrightarrow>
            0 < langrangian_weight mp \<and> (fairness_scope mp = ''cumulative'' \<or> 0 < horizon mp))"
proof (cases "0 < langrangian_weight mp")
  case False
  with assms(1) show ?thesis by (auto simp: fairness_objective_def)
next
  case w: True
  show ?thesis
  proof (cases "fairness_scope mp = ''timestep''")
    case True
    with w assms(1) have "foldM (\<lambda>tot t.
                  ebind (mapM (\<lambda>a. expected_claims_expr mp a (\<lambda>column. py_index (claims column) t))
                              [0..<num_agents mp]) (\<lambda>expected_claims_t.
                    if fairness_type mp = ''variance''
                    then Inr (Sub tot (Mul (Num (langrangian_weight mp)) (VarPen expected_claims_t)))
                    else Inl UnboundLocalError))
                (Num 0) [0..<horizon mp] = Inr e0"
      by (simp add: fairness_objective_def)
    from penalty_timestep_fold [where \<sigma> = \<sigma> and vp = vp, OF this assms(2)] w True
    show ?thesis by (simp add: fairness_penalty_def)
  next
    case False
    with w assms(1) have c: "fairness_scope mp = ''cumulative''"
      by (auto simp: fairness_objective_def split: if_splits)
    with w False assms(1) obtain ecs where
      ecs: "mapM (\<lambda>a. expected_claims_expr mp a (\<lambda>column. Inr (sum_list (claims column))))
                 [0..<num_agents mp] = Inr ecs"
      and e0: "e0 = Sub (Num 0) (Mul (Num (langrangian_weight mp)) (VarPen ecs))"
      by (auto simp: fairness_objective_def ebind_Inr_iff split: if_splits)
    have "map (eval \<sigma> vp) ecs =
          map (\<lambda>a. expected_claim \<sigma> mp a (\<lambda>col. sum_list (claims col))) [0..<num_agents mp]"
      by (rule expected_claims_exprs_eval [OF ecs assms(2)]) simp
    with e0 w c show ?thesis by (simp add: fairness_penalty_def)
  qed
qed

lemma build_objective_eval:
  assumes "build_objective mp = Inr obj"
    and "decision_vars mp = create_decision_vars (agents mp)"
  shows "eval \<sigma> vp obj = spec_objective vp \<sigma> mp
       \<and> (has_penalty obj \<longleftrightarrow>
            0 < langrangian_weight mp \<and> (fairness_scope mp = ''cumulative'' \<or> 0 < horizon mp))"
proof -
  from assms(1) obtain e0 where e0: "fairness_objective mp = Inr e0"
    and obj: "add_expected_reward mp e0 = Inr obj"
    by (auto simp: build_objective_def ebind_Inr_iff)
  from fairness_objective_eval [where \<sigma> = \<sigma> and vp = vp, OF e0 assms(2)]
    add_expected_reward_eval [where \<sigma> = \<sigma> and vp = vp, OF obj assms(2)]
  show ?thesis by (simp add: spec_objective_def)
qed

lemma spec_objective_decision_vars [simp]:
  "spec_objective vp \<sigma> (mp\<lparr>decision_vars := dvs\<rparr>) = spec_objective vp \<sigma> mp"
  by (simp add: spec_objective_def total_expected_reward_def fairness_penalty_def
      expected_claim_def)

text \<open>
  Claim C1. Whenever \<^verbatim>\<open>solve()\<close> hands a problem to the solver, the objective it
  maximizes has, under every assignment \<open>\<sigma>\<close> of the decision variables, the value of the
  specification's objective: the sum over all agents and columns of the variable times
  \<open>sum(reward) - sum(fixed_cost_vector * claims)\<close>, minus the weight times the fairness
  penalty when the weight is positive, and nothing else when it is not. For a positive
  horizon the objective contains an application of the penalty primitive if and only if
  the weight is positive.
\<close>

theorem objective_handed_to_solver:
  assumes "formulate mp = (mp3, Inr prob)"
  shows "eval \<sigma> vp (objective prob) = spec_objective vp \<sigma> mp
       \<and> (0 < horizon mp \<longrightarrow> (has_penalty (objective prob) \<longleftrightarrow> 0 < langrangian_weight mp))"
proof -
  let ?mp1 = "mp\<lparr>decision_vars := create_decision_vars (agents mp)\<rparr>"
  from formulate_Inr [OF assms]
  have b: "build_objective ?mp1 = Inr (objective prob)" by blast
  have f: "decision_vars ?mp1 = create_decision_vars (agents ?mp1)" by simp
  from build_objective_eval [where \<sigma> = \<sigma> and vp = vp, OF b f]
  show ?thesis by simp
qed

lemma formulate_success:
  assumes "well_shaped mp"
    and "\<not> 0 < langrangian_weight mp \<or>
         (fairness_type mp = ''variance'' \<and>
          (fairness_scope mp = ''timestep'' \<or> fairness_scope mp = ''cumulative''))"
  shows "\<exists>mp3 prob. formulate mp = (mp3, Inr prob)"
proof -
  let ?mp1 = "mp\<lparr>decision_vars := create_decision_vars (agents mp)\<rparr>"
  have f: "decision_vars ?mp1 = create_decision_vars (agents ?mp1)" by simp
  have w: "well_shaped ?mp1" using assms(1) by (simp add: well_shaped_def)
  have "\<exists>e0. fairness_objective ?mp1 = Inr e0"
  proof (cases "0 < langrangian_weight mp")
    case True
    with assms(2) show ?thesis
      by (intro fairness_objective_success [OF f w]) simp_all
  next
    case False
    then show ?thesis by (simp add: fairness_objective_no_weight)
  qed
  then obtain e0 where e0: "fairness_objective ?mp1 = Inr e0" by blast
  have "\<exists>e. add_expected_reward ?mp1 e0 = Inr e"
    by (rule add_expected_reward_success [OF f]) (use assms(1) in \<open>simp add: well_shaped_def\<close>)
  with e0 obtain obj where "build_objective ?mp1 = Inr obj"
    by (auto simp: build_objective_def ebind_simps)
  with formulate_well_shaped [OF assms(1)] obtain prob where "snd (formulate mp) = Inr prob"
    by auto
  then show ?thesis by (metis prod.collapse)
qed

theorem objective_handed_to_solver_witness:
  "0 < horizon (scenario_instance 1 0 1 5 ''variance'' ''timestep'')
   \<and> eval (\<lambda>_. 1) population_variance
        (scenario_reward (scenario_penalty 1 0 5)) =
      spec_objective population_variance (\<lambda>_. 1) (scenario_instance 1 0 1 5 ''variance'' ''timestep'')
   \<and> spec_objective population_variance (\<lambda>_. 1)
        (scenario_instance 1 0 1 5 ''variance'' ''timestep'') = 3 / 4
   \<and> has_penalty (scenario_reward (scenario_penalty 1 0 5))
   \<and> \<not> has_penalty (scenario_reward (Num 0))"
proof -
  let ?B = "scenario_instance 1 0 1 5 ''variance'' ''timestep''"
  let ?A = "scenario_instance 1 0 1 0 ''variance'' ''timestep''"
  have fB: "formulate ?B = (scenario_formulated (scenario_reward (scenario_penalty 1 0 5)) 1 0 1 5
        ''variance'' ''timestep'',
      Inr (scenario_problem (scenario_reward (scenario_penalty 1 0 5)) 1 0 1))"
    by (rule scenario_formulate_timestep) simp
  have fA: "formulate ?A = (scenario_formulated (scenario_reward (Num 0)) 1 0 1 0
        ''variance'' ''timestep'',
      Inr (scenario_problem (scenario_reward (Num 0)) 1 0 1))"
    by (rule scenario_formulate_unweighted)
  have h: "0 < horizon ?B" "0 < horizon ?A" "0 < langrangian_weight ?B"
    "\<not> 0 < langrangian_weight ?A"
    by (simp_all add: scenario_instance_def)
  have v: "population_variance [1, 0] = 1 / 4"
    by (simp add: population_variance_def power2_eq_square)
  from objective_handed_to_solver [OF fB, of "\<lambda>_. 1" population_variance] h
  have 1: "eval (\<lambda>_. 1) population_variance (scenario_reward (scenario_penalty 1 0 5)) =
      spec_objective population_variance (\<lambda>_. 1) ?B"
    and 2: "has_penalty (scenario_reward (scenario_penalty 1 0 5))"
    by (simp_all add: scenario_problem_def)
  from objective_handed_to_solver [OF fA, of "\<lambda>_. 1" population_variance] h
  have 3: "\<not> has_penalty (scenario_reward (Num 0))"
    by (simp add: scenario_problem_def)
  have 4: "spec_objective population_variance (\<lambda>_. 1) ?B = 3 / 4"
    unfolding 1 [symmetric] by (simp add: scenario_reward_def scenario_penalty_def v)
  from h(1) 1 2 3 4 show ?thesis by blast
qed

lemma foldM_enumerate_rel:
  assumes "list_all2 R xs ys"
    and "\<And>acc i x y. R x y \<Longrightarrow> f acc (i, x) = g acc (i, y)"
  shows "foldM f acc (enumerate n xs) = foldM g acc (enumerate n ys)"
  using assms(1)
proof (induction xs ys arbitrary: n acc rule: list_all2_induct)
  case Nil
  then show ?case by simp
next
  case (Cons x xs y ys)
  from assms(2) [OF Cons.hyps(1)] have "f acc (n, x) = g acc (n, y)" .
  with Cons.IH show ?case by simp
qed

lemma py_index_rel:
  assumes "list_all2 R xs ys"
    and "\<And>x y. R x y \<Longrightarrow> k x = k' y"
  shows "ebind (py_index xs a) k = ebind (py_index ys a) k'"
proof (cases "a < length xs")
  case True
  with assms(1) have "R (xs ! a) (ys ! a)" "a < length ys"
    by (simp_all add: list_all2_conv_all_nth)
  with True assms(2) show ?thesis by (simp add: py_index_def ebind_simps)
next
  case False
  with assms(1) have "\<not> a < length ys" by (simp add: list_all2_lengthD)
  with False show ?thesis by (simp add: py_index_def ebind_simps)
qed

lemma create_decision_vars_rel:
  assumes "list_all2 same_except_horizon ags ags'"
  shows "create_decision_vars ags' = create_decision_vars ags"
proof (rule nth_equalityI)
  show "length (create_decision_vars ags') = length (create_decision_vars ags)"
    using assms by (simp add: list_all2_lengthD)
next
  fix a assume "a < length (create_decision_vars ags')"
  then have a: "a < length ags'" "a < length ags"
    using assms by (simp_all add: list_all2_lengthD)
  with assms have "get_columns (ags ! a) = get_columns (ags' ! a)"
    by (simp add: list_all2_conv_all_nth same_except_horizon_def)
  with a show "create_decision_vars ags' ! a = create_decision_vars ags ! a"
    by (simp add: create_decision_vars_nth)
qed

lemma expected_total_claims_agents:
  assumes "list_all2 same_except_horizon (agents m) ags'"
  shows "expected_total_claims (m\<lparr>agents := ags'\<rparr>) = expected_total_claims m"
proof (rule ext)
  fix t
  show "expected_total_claims (m\<lparr>agents := ags'\<rparr>) t = expected_total_claims m t"
    unfolding expected_total_claims_def
    by (simp, rule sym, rule foldM_enumerate_rel [OF assms])
       (simp add: same_except_horizon_def)
qed

lemma add_expected_reward_agents:
  assumes "list_all2 same_except_horizon (agents m) ags'"
  shows "add_expected_reward (m\<lparr>agents := ags'\<rparr>) = add_expected_reward m"
proof (rule ext)
  fix e
  show "add_expected_reward (m\<lparr>agents := ags'\<rparr>) e = add_expected_reward m e"
    unfolding add_expected_reward_def
    by (simp, rule sym, rule foldM_enumerate_rel [OF assms])
       (simp add: same_except_horizon_def)
qed

lemma expected_claims_expr_agents:
  assumes "list_all2 same_except_horizon (agents m) ags'"
  shows "expected_claims_expr (m\<lparr>agents := ags'\<rparr>) = expected_claims_expr m"
proof (intro ext)
  fix a weight
  show "expected_claims_expr (m\<lparr>agents := ags'\<rparr>) a weight = expected_claims_expr m a weight"
    unfolding expected_claims_expr_def
    by (simp, rule sym, rule py_index_rel [OF assms])
       (simp add: same_except_horizon_def)
qed

lemma expected_claims_value_agents:
  assumes "list_all2 same_except_horizon (agents m) ags'"
  shows "expected_claims_value (m\<lparr>agents := ags'\<rparr>) = expected_claims_value m"
proof (intro ext)
  fix a weight
  show "expected_claims_value (m\<lparr>agents := ags'\<rparr>) a weight = expected_claims_value m a weight"
    unfolding expected_claims_value_def
    by (simp, rule sym, rule py_index_rel [OF assms])
       (simp add: same_except_horizon_def)
qed

lemma extraction_agents:
  assumes "list_all2 same_except_horizon (agents m) ags'"
  shows "compute_fairness_gradients vpg (m\<lparr>agents := ags'\<rparr>) = compute_fairness_gradients vpg m"
    and "compute_realized_fairness_penalty vpn (m\<lparr>agents := ags'\<rparr>)
         = compute_realized_fairness_penalty vpn m"
    and "get_dual_prices (m\<lparr>agents := ags'\<rparr>) = get_dual_prices m"
    and "get_decision_distribution ops (m\<lparr>agents := ags'\<rparr>)
         = get_decision_distribution ops m"
  by (simp_all add: compute_fairness_gradients_def compute_realized_fairness_penalty_def
      get_dual_prices_def get_decision_distribution_def expected_claims_value_agents [OF assms]
      cong: if_cong)

lemma build_objective_agents:
  assumes "list_all2 same_except_horizon (agents m) ags'"
  shows "build_objective (m\<lparr>agents := ags'\<rparr>) = build_objective m"
  by (simp add: build_objective_def fairness_objective_def expected_claims_expr_agents [OF assms]
      add_expected_reward_agents [OF assms] cong: if_cong)

lemma agents_update_last:
  "m\<lparr>agents := ags, resource_constraints := rc\<rparr> = m\<lparr>resource_constraints := rc, agents := ags\<rparr>"
  "m\<lparr>agents := ags, decision_vars := dvs\<rparr> = m\<lparr>decision_vars := dvs, agents := ags\<rparr>"
  "m\<lparr>agents := ags, lp := p\<rparr> = m\<lparr>lp := p, agents := ags\<rparr>"
  by (cases m, simp)+

lemma build_rc_agents:
  assumes "list_all2 same_except_horizon (agents m) ags'"
  shows "build_resource_constraints (m\<lparr>agents := ags'\<rparr>) ts =
         (case build_resource_constraints m ts of (m2, r) \<Rightarrow> (m2\<lparr>agents := ags'\<rparr>, r))"
  using assms
proof (induction ts arbitrary: m)
  case Nil
  then show ?case by simp
next
  case (Cons t ts)
  show ?case
  proof (cases "expected_total_claims m t")
    case (Inl e)
    then show ?thesis by (simp add: expected_total_claims_agents [OF Cons.prems])
  next
    case (Inr x)
    let ?m = "m\<lparr>resource_constraints := resource_constraints m @ [cv_le x (resource_capacity m)]\<rparr>"
    have "list_all2 same_except_horizon (agents ?m) ags'" using Cons.prems by simp
    from Cons.IH [OF this] Inr show ?thesis
      by (simp add: expected_total_claims_agents [OF Cons.prems] agents_update_last)
  qed
qed

lemma formulate_agents:
  assumes "list_all2 same_except_horizon (agents m) ags'"
  shows "formulate (m\<lparr>agents := ags'\<rparr>) =
         (case formulate m of (m3, r) \<Rightarrow> (m3\<lparr>agents := ags'\<rparr>, r))"
proof -
  let ?m1 = "m\<lparr>decision_vars := create_decision_vars (agents m)\<rparr>"
  have r1: "list_all2 same_except_horizon (agents (?m1\<lparr>resource_constraints := []\<rparr>)) ags'"
    using assms by simp
  have a: "agent_constraints (?m1\<lparr>agents := ags'\<rparr>) = agent_constraints ?m1"
    by (simp add: agent_constraints_def)
  obtain m2 r where b: "build_resource_constraints (?m1\<lparr>resource_constraints := []\<rparr>)
      [0..<horizon m] = (m2, r)" by (metis surj_pair)
  from build_rc_fields [OF b] have "agents m2 = agents m"
    by (metis master_problem.select_convs(1) master_problem.surjective
        master_problem.update_convs(8,10))
  with assms have r2: "list_all2 same_except_horizon (agents m2) ags'" by simp
  have b': "build_resource_constraints (?m1\<lparr>agents := ags', resource_constraints := []\<rparr>)
      [0..<horizon m] = (m2\<lparr>agents := ags'\<rparr>, r)"
    using build_rc_agents [OF r1, of "[0..<horizon m]"] b by (simp add: agents_update_last)
  show ?thesis
    unfolding formulate_def Let_def
    using a b b' build_objective_agents [OF r2]
    by (simp add: create_decision_vars_rel [OF assms] agents_update_last
        split: sum.splits option.splits)
qed

lemma install_solution_agents:
  "install_solution res k (m\<lparr>agents := ags'\<rparr>) = (install_solution res k m)\<lparr>agents := ags'\<rparr>"
  by (simp add: install_solution_def agents_update_last)

lemma agents_install_solution [simp]:
  "agents (install_solution res k m) = agents m"
  by (simp add: install_solution_def)

lemma agents_formulate: "agents (fst (formulate m)) = agents m"
  using formulate_fields [of m "fst (formulate m)" "snd (formulate m)"]
  by (metis master_problem.select_convs(1) master_problem.surjective
      master_problem.update_convs(8,9,10) prod.collapse)

lemma solve_agents:
  assumes "list_all2 same_except_horizon (agents m) ags'"
  shows "solve solver vpg vpn (m\<lparr>agents := ags'\<rparr>) =
         (case solve solver vpg vpn m of (m', r) \<Rightarrow> (m'\<lparr>agents := ags'\<rparr>, r))"
proof -
  obtain m3 r where f: "formulate m = (m3, r)" by (metis surj_pair)
  then have f': "formulate (m\<lparr>agents := ags'\<rparr>) = (m3\<lparr>agents := ags'\<rparr>, r)"
    by (simp add: formulate_agents [OF assms])
  have "agents m3 = agents m" using agents_formulate [of m] f by simp
  with assms have r3: "list_all2 same_except_horizon (agents m3) ags'" by simp
  have r4: "list_all2 same_except_horizon (agents (install_solution res k m3)) ags'" for res k
    using r3 by simp
  show ?thesis
    unfolding solve_with_def f f'
    by (simp add: install_solution_agents extraction_agents [OF r4] Let_def
        agents_update_last split: sum.splits)
qed

text \<open>
  Claim C10. The constructor raises IndexError on an empty list of agents. On a
  non-empty list it takes \<^verbatim>\<open>horizon\<close> from the first agent alone: with the other agents'
  \<^verbatim>\<open>horizon\<close> attributes changed at will, the constructor builds the same instance (but
  for the agents it holds), \<^verbatim>\<open>solve()\<close> has the same outcome and leaves the same
  instance, and the four extraction operations return the same results after it.
\<close>

theorem horizon_from_first_agent:
  assumes "list_all2 same_except_horizon rest rest'"
  shows "MasterProblem_init [] capacity weight ftype fscope = Inl IndexError
       \<and> (\<exists>mp. MasterProblem_init (first # rest) capacity weight ftype fscope = Inr mp
            \<and> horizon mp = agent_horizon first
            \<and> MasterProblem_init (first # rest') capacity weight ftype fscope
                = Inr (mp\<lparr>agents := first # rest'\<rparr>)
            \<and> solve solver vpg vpn (mp\<lparr>agents := first # rest'\<rparr>)
                = (case solve solver vpg vpn mp of (m, r) \<Rightarrow> (m\<lparr>agents := first # rest'\<rparr>, r))
            \<and> compute_fairness_gradients vpg
                  ((fst (solve solver vpg vpn mp))\<lparr>agents := first # rest'\<rparr>)
                = compute_fairness_gradients vpg (fst (solve solver vpg vpn mp))
            \<and> compute_realized_fairness_penalty vpn
                  ((fst (solve solver vpg vpn mp))\<lparr>agents := first # rest'\<rparr>)
                = compute_realized_fairness_penalty vpn (fst (solve solver vpg vpn mp))
            \<and> get_dual_prices ((fst (solve solver vpg vpn mp))\<lparr>agents := first # rest'\<rparr>)
                = get_dual_prices (fst (solve solver vpg vpn mp))
            \<and> get_decision_distribution ops
                  ((fst (solve solver vpg vpn mp))\<lparr>agents := first # rest'\<rparr>)
                = get_decision_distribution ops (fst (solve solver vpg vpn mp)))"
proof -
  define mp where "mp = \<lparr>agents = first # rest, horizon = agent_horizon first,
            num_agents = length (first # rest),
            resource_capacity = capacity, langrangian_weight = weight,
            fairness_type = ftype, fairness_scope = fscope,
            decision_vars = [], lp = None, resource_constraints = []\<rparr>"
  have e: "MasterProblem_init [] capacity weight ftype fscope = Inl IndexError"
    by (simp add: MasterProblem_init_def py_index_def ebind_simps)
  have i: "MasterProblem_init (first # rest) capacity weight ftype fscope = Inr mp"
    by (simp add: MasterProblem_init_def py_index_def ebind_simps mp_def)
  have h: "horizon mp = agent_horizon first" by (simp add: mp_def)
  have l: "length rest' = length rest" using assms by (simp add: list_all2_lengthD)
  have i': "MasterProblem_init (first # rest') capacity weight ftype fscope
                = Inr (mp\<lparr>agents := first # rest'\<rparr>)"
    by (simp add: MasterProblem_init_def py_index_def ebind_simps mp_def l)
  have r: "list_all2 same_except_horizon (agents mp) (first # rest')"
    using assms by (simp add: mp_def same_except_horizon_def)
  have r': "list_all2 same_except_horizon (agents (fst (solve solver vpg vpn mp))) (first # rest')"
    using r solve_config [of solver vpg vpn mp] by simp
  from e i h i' solve_agents [OF r, of solver vpg vpn] extraction_agents [OF r']
  show ?thesis by blast
qed

theorem horizon_from_first_agent_witness:
  "list_all2 same_except_horizon [scenario_agent 0] [(scenario_agent 0)\<lparr>agent_horizon := 7\<rparr>]
   \<and> MasterProblem_init [scenario_agent 1, (scenario_agent 0)\<lparr>agent_horizon := 7\<rparr>] 1 5
        ''variance'' ''timestep''
      = Inr ((scenario_instance 1 0 1 5 ''variance'' ''timestep'')
               \<lparr>agents := [scenario_agent 1, (scenario_agent 0)\<lparr>agent_horizon := 7\<rparr>]\<rparr>)
   \<and> horizon (scenario_instance 1 0 1 5 ''variance'' ''timestep'') = agent_horizon (scenario_agent 1)
   \<and> snd (solve (\<lambda>_. Inr infeasible_result) population_variance_gradient population_variance
        ((scenario_instance 1 0 1 5 ''variance'' ''timestep'')
               \<lparr>agents := [scenario_agent 1, (scenario_agent 0)\<lparr>agent_horizon := 7\<rparr>]\<rparr>))
      = snd (solve (\<lambda>_. Inr infeasible_result) population_variance_gradient population_variance
               (scenario_instance 1 0 1 5 ''variance'' ''timestep''))"
proof -
  let ?I = "scenario_instance 1 0 1 5 ''variance'' ''timestep''"
  let ?rest' = "[(scenario_agent 0)\<lparr>agent_horizon := 7\<rparr>]"
  let ?S = "\<lambda>_ :: problem. Inr infeasible_result :: error + solver_result"
  have a: "list_all2 same_except_horizon [scenario_agent 0] ?rest'"
    by (simp add: same_except_horizon_def)
  from horizon_from_first_agent [OF a, of 1 5 "''variance''" "''timestep''" "scenario_agent 1"
      ?S population_variance_gradient population_variance]
  obtain mp where
    i: "MasterProblem_init [scenario_agent 1, scenario_agent 0] 1 5 ''variance'' ''timestep'' = Inr mp"
    and h: "horizon mp = agent_horizon (scenario_agent 1)"
    and i': "MasterProblem_init [scenario_agent 1, (scenario_agent 0)\<lparr>agent_horizon := 7\<rparr>] 1 5
        ''variance'' ''timestep'' = Inr (mp\<lparr>agents := scenario_agent 1 # ?rest'\<rparr>)"
    and s: "solve ?S population_variance_gradient population_variance
              (mp\<lparr>agents := scenario_agent 1 # ?rest'\<rparr>)
            = (case solve ?S population_variance_gradient population_variance mp of
                 (m, r) \<Rightarrow> (m\<lparr>agents := scenario_agent 1 # ?rest'\<rparr>, r))"
    by blast
  from i have mp: "mp = ?I" by (simp add: scenario_init)
  from s have "snd (solve ?S population_variance_gradient population_variance
              (mp\<lparr>agents := scenario_agent 1 # ?rest'\<rparr>))
            = snd (solve ?S population_variance_gradient population_variance mp)"
    by (simp add: case_prod_unfold)
  with a h i' show ?thesis unfolding mp by blast
qed

end
